theory Spec2Isabelle
  imports Main
begin

section \<open>Fatal outcomes\<close>

text \<open>
  Every way in which the simulator code stops instead of returning is a value of
  \<open>fatal\<close>: a failed \<^verbatim>\<open>assert\<close>, a thrown \<^verbatim>\<open>std::runtime_error\<close> (with its message),
  a thrown \<^verbatim>\<open>std::out_of_range\<close>, an access outside an array, and the deadlock abort of
  the watchdog.  A function that can stop this way returns \<open>fatal + 'a\<close>.
\<close>

datatype fatal =
    Assertion_failed
  | Runtime_error string
  | Out_of_range
  | Index_out_of_bounds
  | Undefined_behaviour
  | Deadlock_abort

section \<open>Memory fetches (mem\_fetch.hpp)\<close>

datatype mf_type = READ_REQUEST | WRITE_REQUEST | READ_REPLY | WRITE_ACK

text \<open>
  Modelled from the spec: the enumeration \<^verbatim>\<open>mem_access_type\<close> and the class
  \<^verbatim>\<open>mem_access_t\<close> are declared in mem\_access.hpp, which is not among the sources.
  The specification names the two write-back access types; every other enumerator is
  \<open>OTHER_ACC k\<close>.  Of the access descriptor the fetch reads the type, the address, the
  size and the write flag.
\<close>

datatype mem_access_type = L1_WRBK_ACC | L2_WRBK_ACC | OTHER_ACC nat

record mem_access_t =
  acc_type :: mem_access_type
  acc_addr :: nat
  acc_size :: nat
  acc_write :: bool

datatype mem_fetch_status =
    MEM_FETCH_INITIALIZED | IN_L1I_MISS_QUEUE | IN_L1D_MISS_QUEUE | IN_L1T_MISS_QUEUE
  | IN_L1C_MISS_QUEUE | IN_L1TLB_MISS_QUEUE | IN_VM_MANAGER_QUEUE | IN_ICNT_TO_MEM
  | IN_PARTITION_ROP_DELAY | IN_PARTITION_ICNT_TO_L2_QUEUE | IN_PARTITION_L2_TO_DRAM_QUEUE
  | IN_PARTITION_DRAM_LATENCY_QUEUE | IN_PARTITION_L2_MISS_QUEUE
  | IN_PARTITION_MC_INTERFACE_QUEUE | IN_PARTITION_MC_INPUT_QUEUE
  | IN_PARTITION_MC_BANK_ARB_QUEUE | IN_PARTITION_DRAM | IN_PARTITION_MC_RETURNQ
  | IN_PARTITION_DRAM_TO_L2_QUEUE | IN_PARTITION_L2_FILL_QUEUE
  | IN_PARTITION_L2_TO_ICNT_QUEUE | IN_ICNT_TO_SHADER | IN_CLUSTER_TO_SHADER_QUEUE
  | IN_SHADER_LDST_RESPONSE_FIFO | IN_SHADER_FETCHED | IN_SHADER_L1T_ROB
  | MEM_FETCH_DELETED | NUM_MEM_REQ_STAT

text \<open>The data members of class \<^verbatim>\<open>mem_fetch\<close> that its inline members read or write.\<close>

record mem_fetch =
  m_request_uid :: nat
  m_sid :: nat
  m_tpc :: nat
  m_wid :: nat
  m_status :: mem_fetch_status
  m_status_change :: nat
  m_access :: mem_access_t
  m_data_size :: nat
  m_ctrl_size :: nat
  m_partition_addr :: nat
  m_type :: mf_type
  m_timestamp :: nat
  m_timestamp2 :: nat
  m_icnt_receive_time :: nat

definition get_access_type :: "mem_fetch \<Rightarrow> mem_access_type" where
  "get_access_type mf = acc_type (m_access mf)"

definition get_is_write :: "mem_fetch \<Rightarrow> bool" where
  "get_is_write mf = acc_write (m_access mf)"

definition is_reply :: "mem_fetch \<Rightarrow> bool" where
  "is_reply mf = (m_type mf = READ_REPLY \<or> m_type mf = WRITE_ACK)"

text \<open>
  \<^verbatim>\<open>set_reply\<close>: the three \<^verbatim>\<open>assert\<close>s are branches that end in \<open>Assertion_failed\<close>; the
  last branch (the fetch is a reply already) changes nothing.
\<close>

definition set_reply :: "mem_fetch \<Rightarrow> fatal + mem_fetch" where
  "set_reply mf =
     (if \<not> (get_access_type mf \<noteq> L1_WRBK_ACC \<and> get_access_type mf \<noteq> L2_WRBK_ACC)
      then Inl Assertion_failed
      else if m_type mf = READ_REQUEST then
        (if \<not> (\<not> get_is_write mf) then Inl Assertion_failed
         else Inr (mf\<lparr>m_type := READ_REPLY\<rparr>))
      else if m_type mf = WRITE_REQUEST then
        (if \<not> get_is_write mf then Inl Assertion_failed
         else Inr (mf\<lparr>m_type := WRITE_ACK\<rparr>))
      else Inr mf)"

text \<open>Two calls in a row: the second runs only if the first returned.\<close>

definition set_reply_twice :: "mem_fetch \<Rightarrow> fatal + mem_fetch" where
  "set_reply_twice mf = (case set_reply mf of Inl e \<Rightarrow> Inl e | Inr mf' \<Rightarrow> set_reply mf')"

text \<open>A concrete fetch for the examples: a 32-byte global read issued by warp 3.\<close>

definition example_fetch :: mem_fetch where
  "example_fetch =
     \<lparr>m_request_uid = 7, m_sid = 0, m_tpc = 0, m_wid = 3,
      m_status = IN_ICNT_TO_MEM, m_status_change = 100,
      m_access = \<lparr>acc_type = OTHER_ACC 0, acc_addr = 4096, acc_size = 32, acc_write = False\<rparr>,
      m_data_size = 32, m_ctrl_size = 8, m_partition_addr = 4096,
      m_type = READ_REQUEST, m_timestamp = 90, m_timestamp2 = 0, m_icnt_receive_time = 0\<rparr>"

text \<open>
  Three variations of the example: a read request whose access descriptor says write, a
  write-back fetch whose type is already a reply, and the example after its reply was set.
\<close>

definition inconsistent_fetch :: mem_fetch where
  "inconsistent_fetch =
     example_fetch\<lparr>m_access := (m_access example_fetch)\<lparr>acc_write := True\<rparr>\<rparr>"

definition wrbk_reply_fetch :: mem_fetch where
  "wrbk_reply_fetch =
     example_fetch\<lparr>m_access := (m_access example_fetch)\<lparr>acc_type := L1_WRBK_ACC, acc_write := True\<rparr>,
                   m_type := WRITE_ACK\<rparr>"

definition reply_fetch :: mem_fetch where
  "reply_fetch = example_fetch\<lparr>m_type := READ_REPLY\<rparr>"

section \<open>Operand collector (opndcoll\_rfu.hpp)\<close>

subsection \<open>Unsigned arithmetic\<close>

text \<open>
  The members of type \<^verbatim>\<open>unsigned\<close> are natural numbers below \<open>2 ^ 32\<close>; \<open>u32\<close> is the
  wrap-around that every \<^verbatim>\<open>unsigned\<close> operation applies to its mathematical result.
\<close>

definition u32 :: "nat \<Rightarrow> nat" where
  "u32 x = x mod 2 ^ 32"

subsection \<open>Operand tokens and bank allocations\<close>

text \<open>
  \<^verbatim>\<open>op_t\<close>: the pointers \<^verbatim>\<open>m_cu\<close> and \<^verbatim>\<open>m_warp\<close> are the identifier of the collector unit
  and of the warp they point to, \<open>None\<close> for \<^verbatim>\<open>NULL\<close>.
\<close>

record op_t =
  m_valid :: bool
  m_cu :: "nat option"
  m_warp :: "nat option"
  m_operand :: nat
  m_register :: nat
  m_bank :: nat
  m_shced_id :: nat

text \<open>The default constructor \<^verbatim>\<open>op_t()\<close>: only \<^verbatim>\<open>m_valid\<close> is set.\<close>

definition op_t_invalid :: op_t where
  "op_t_invalid =
     \<lparr>m_valid = False, m_cu = None, m_warp = None, m_operand = 0, m_register = 0,
      m_bank = 0, m_shced_id = 0\<rparr>"

datatype alloc_t = NO_ALLOC | READ_ALLOC | WRITE_ALLOC

record allocation_t =
  m_allocation :: alloc_t
  m_op :: op_t

definition allocation_t_new :: allocation_t where
  "allocation_t_new = \<lparr>m_allocation = NO_ALLOC, m_op = op_t_invalid\<rparr>"

definition is_read :: "allocation_t \<Rightarrow> bool" where
  "is_read a = (m_allocation a = READ_ALLOC)"

definition is_write :: "allocation_t \<Rightarrow> bool" where
  "is_write a = (m_allocation a = WRITE_ALLOC)"

definition is_free :: "allocation_t \<Rightarrow> bool" where
  "is_free a = (m_allocation a = NO_ALLOC)"

definition alloc_read :: "op_t \<Rightarrow> allocation_t \<Rightarrow> fatal + allocation_t" where
  "alloc_read op a =
     (if \<not> is_free a then Inl Assertion_failed
      else Inr (a\<lparr>m_allocation := READ_ALLOC, m_op := op\<rparr>))"

definition alloc_write :: "op_t \<Rightarrow> allocation_t \<Rightarrow> fatal + allocation_t" where
  "alloc_write op a =
     (if \<not> is_free a then Inl Assertion_failed
      else Inr (a\<lparr>m_allocation := WRITE_ALLOC, m_op := op\<rparr>))"

definition allocation_reset :: "allocation_t \<Rightarrow> allocation_t" where
  "allocation_reset a = a\<lparr>m_allocation := NO_ALLOC\<rparr>"

subsection \<open>The arbiter\<close>

text \<open>
  \<^verbatim>\<open>arbiter_t\<close>: the arrays \<^verbatim>\<open>m_allocated_bank\<close>, \<^verbatim>\<open>m_queue\<close> and
  \<^verbatim>\<open>m_allocator_rr_head\<close> are lists.  The matrices \<^verbatim>\<open>_inmatch\<close>, \<^verbatim>\<open>_outmatch\<close> and
  \<^verbatim>\<open>_request\<close> are scratch space of \<^verbatim>\<open>allocate_reads\<close> and carry no state between calls.
\<close>

record arbiter_t =
  m_num_banks :: nat
  m_num_collectors :: nat
  m_allocated_bank :: "allocation_t list"
  m_queue :: "op_t list list"
  m_allocator_rr_head :: "nat list"
  m_last_cu :: nat

definition reset_alloction :: "arbiter_t \<Rightarrow> arbiter_t" where
  "reset_alloction arb =
     arb\<lparr>m_allocated_bank :=
           foldl (\<lambda>banks b. banks[b := allocation_reset (banks ! b)])
             (m_allocated_bank arb) [0..<m_num_banks arb]\<rparr>"

text \<open>\<^verbatim>\<open>arbiter_t()\<close> followed by \<^verbatim>\<open>init(num_cu, num_banks)\<close>.\<close>

definition arbiter_init :: "nat \<Rightarrow> nat \<Rightarrow> fatal + arbiter_t" where
  "arbiter_init num_cu num_banks =
     (if \<not> num_cu > 0 then Inl Assertion_failed
      else if \<not> num_banks > 0 then Inl Assertion_failed
      else Inr (reset_alloction
        \<lparr>m_num_banks = num_banks, m_num_collectors = num_cu,
         m_allocated_bank = replicate num_banks allocation_t_new,
         m_queue = replicate num_banks [],
         m_allocator_rr_head = map (\<lambda>n. n mod num_banks) [0..<num_cu],
         m_last_cu = 0\<rparr>))"

definition bank_idle :: "arbiter_t \<Rightarrow> nat \<Rightarrow> bool" where
  "bank_idle arb bank = is_free (m_allocated_bank arb ! bank)"

definition allocate_bank_for_write :: "nat \<Rightarrow> op_t \<Rightarrow> arbiter_t \<Rightarrow> fatal + arbiter_t" where
  "allocate_bank_for_write bank op arb =
     (if \<not> bank < m_num_banks arb then Inl Assertion_failed
      else case alloc_write op (m_allocated_bank arb ! bank) of
             Inl e \<Rightarrow> Inl e
           | Inr a \<Rightarrow> Inr (arb\<lparr>m_allocated_bank := (m_allocated_bank arb)[bank := a]\<rparr>))"

definition allocate_for_read :: "nat \<Rightarrow> op_t \<Rightarrow> arbiter_t \<Rightarrow> fatal + arbiter_t" where
  "allocate_for_read bank op arb =
     (if \<not> bank < m_num_banks arb then Inl Assertion_failed
      else case alloc_read op (m_allocated_bank arb ! bank) of
             Inl e \<Rightarrow> Inl e
           | Inr a \<Rightarrow> Inr (arb\<lparr>m_allocated_bank := (m_allocated_bank arb)[bank := a]\<rparr>))"

text \<open>
  The calls that change the allocation table, and a run of such calls in program order;
  the run stops at the first failed assertion.
\<close>

datatype arbiter_call =
    Allocate_for_read nat op_t
  | Allocate_bank_for_write nat op_t
  | Reset_alloction

fun run_call :: "arbiter_call \<Rightarrow> arbiter_t \<Rightarrow> fatal + arbiter_t" where
  "run_call (Allocate_for_read bank op) arb = allocate_for_read bank op arb"
| "run_call (Allocate_bank_for_write bank op) arb = allocate_bank_for_write bank op arb"
| "run_call Reset_alloction arb = Inr (reset_alloction arb)"

fun run_calls :: "arbiter_call list \<Rightarrow> arbiter_t \<Rightarrow> fatal + arbiter_t" where
  "run_calls [] arb = Inr arb"
| "run_calls (c # cs) arb =
     (case run_call c arb of Inl e \<Rightarrow> Inl e | Inr arb' \<Rightarrow> run_calls cs arb')"

fun allocates :: "nat \<Rightarrow> arbiter_call \<Rightarrow> bool" where
  "allocates b (Allocate_for_read bank op) = (bank = b)"
| "allocates b (Allocate_bank_for_write bank op) = (bank = b)"
| "allocates b Reset_alloction = False"

definition allocations_of :: "nat \<Rightarrow> arbiter_call list \<Rightarrow> nat" where
  "allocations_of b cs = length (filter (allocates b) cs)"

text \<open>
  The array behind \<^verbatim>\<open>m_allocated_bank\<close> has \<^verbatim>\<open>m_num_banks\<close> entries (\<^verbatim>\<open>init\<close> allocates it
  so), and a bank is busy when its entry is not free.
\<close>

definition banks_allocated :: "arbiter_t \<Rightarrow> bool" where
  "banks_allocated arb = (length (m_allocated_bank arb) = m_num_banks arb)"

definition busy :: "arbiter_t \<Rightarrow> nat \<Rightarrow> bool" where
  "busy arb b = (b < m_num_banks arb \<and> \<not> is_free (m_allocated_bank arb ! b))"

subsection \<open>The register file unit and its cycle\<close>

text \<open>
  \<^verbatim>\<open>opndcoll_rfu_t\<close>: the arbiter, the number of input ports, and everything else the unit
  owns (collector units, ports, dispatch units) as the record's extension.  The bodies of
  \<^verbatim>\<open>dispatch_ready_cu\<close>, \<^verbatim>\<open>allocate_reads\<close> and \<^verbatim>\<open>allocate_cu\<close> are not in the header;
  \<^verbatim>\<open>step\<close> takes them as parameters, each free to fail or to change the whole unit.
\<close>

record opndcoll_rfu_t =
  m_arbiter :: arbiter_t
  m_in_ports_size :: nat

definition process_banks :: "'x opndcoll_rfu_t_scheme \<Rightarrow> 'x opndcoll_rfu_t_scheme" where
  "process_banks rfu = rfu\<lparr>m_arbiter := reset_alloction (m_arbiter rfu)\<rparr>"

fun allocate_cu_ports ::
  "(nat \<Rightarrow> 'u \<Rightarrow> fatal + 'u) \<Rightarrow> nat list \<Rightarrow> 'u \<Rightarrow> fatal + 'u" where
  "allocate_cu_ports allocate_cu [] rfu = Inr rfu"
| "allocate_cu_ports allocate_cu (p # ps) rfu =
     (case allocate_cu p rfu of
        Inl e \<Rightarrow> Inl e
      | Inr rfu' \<Rightarrow> allocate_cu_ports allocate_cu ps rfu')"

definition step ::
  "('x opndcoll_rfu_t_scheme \<Rightarrow> fatal + 'x opndcoll_rfu_t_scheme) \<Rightarrow>
   ('x opndcoll_rfu_t_scheme \<Rightarrow> fatal + 'x opndcoll_rfu_t_scheme) \<Rightarrow>
   (nat \<Rightarrow> 'x opndcoll_rfu_t_scheme \<Rightarrow> fatal + 'x opndcoll_rfu_t_scheme) \<Rightarrow>
   'x opndcoll_rfu_t_scheme \<Rightarrow> fatal + 'x opndcoll_rfu_t_scheme" where
  "step dispatch_ready_cu allocate_reads allocate_cu rfu =
     (case dispatch_ready_cu rfu of
        Inl e \<Rightarrow> Inl e
      | Inr rfu1 \<Rightarrow>
          (case allocate_reads rfu1 of
             Inl e \<Rightarrow> Inl e
           | Inr rfu2 \<Rightarrow>
               (case allocate_cu_ports allocate_cu [0..<m_in_ports_size rfu2] rfu2 of
                  Inl e \<Rightarrow> Inl e
                | Inr rfu3 \<Rightarrow> Inr (process_banks rfu3))))"

subsection \<open>Collector units\<close>

text \<open>
  \<^verbatim>\<open>collector_unit_t\<close>: the bitset \<^verbatim>\<open>m_not_ready\<close> is the list of its bits, bit \<open>i\<close> at
  position \<open>i\<close>; its length is the bitset's size \<^verbatim>\<open>MAX_REG_OPERANDS * 2\<close>.  The macro
  \<^verbatim>\<open>MAX_REG_OPERANDS\<close> is not defined in the sources and is a parameter of the
  constructor.  \<^verbatim>\<open>m_warp\<close> and \<^verbatim>\<open>m_output_register\<close> are the identifiers of the objects
  pointed to.
\<close>

record collector_unit_t =
  m_free :: bool
  m_cuid :: nat
  m_warp_id :: nat
  m_warp_inst :: "nat option"
  m_output_register :: "nat option"
  m_src_op :: "op_t list"
  m_not_ready :: "bool list"
  m_cu_num_banks :: nat
  m_bank_warp_shift :: nat
  m_num_banks_per_sched :: nat
  m_cu_sub_core_model :: bool
  m_reg_id :: nat

definition collector_unit_t_new :: "nat \<Rightarrow> collector_unit_t" where
  "collector_unit_t_new MAX_REG_OPERANDS =
     \<lparr>m_free = True, m_cuid = 0, m_warp_id = u32 (2 ^ 32 - 1), m_warp_inst = None,
      m_output_register = None,
      m_src_op = replicate (MAX_REG_OPERANDS * 2) op_t_invalid,
      m_not_ready = replicate (MAX_REG_OPERANDS * 2) False,
      m_cu_num_banks = 0, m_bank_warp_shift = 0, m_num_banks_per_sched = 0,
      m_cu_sub_core_model = False, m_reg_id = 0\<rparr>"

text \<open>
  \<^verbatim>\<open>collect_operand(op)\<close> is \<^verbatim>\<open>m_not_ready.reset(op)\<close>; \<^verbatim>\<open>std::bitset::reset\<close> throws
  \<^verbatim>\<open>std::out_of_range\<close> for a position outside the bitset.
\<close>

definition collect_operand :: "nat \<Rightarrow> collector_unit_t \<Rightarrow> fatal + collector_unit_t" where
  "collect_operand op cu =
     (if op < length (m_not_ready cu)
      then Inr (cu\<lparr>m_not_ready := (m_not_ready cu)[op := False]\<rparr>)
      else Inl Out_of_range)"

text \<open>
  Modelled from the spec: \<^verbatim>\<open>collector_unit_t::dispatch\<close> is declared in the header and
  defined in a file that is not among the sources.  The specification: the unit moves to
  the state free, its instruction leaves for the output register, and its \<open>not_ready\<close>
  mask is reset to all-zero.
\<close>

definition dispatch :: "collector_unit_t \<Rightarrow> collector_unit_t" where
  "dispatch cu =
     cu\<lparr>m_free := True, m_warp_inst := None, m_output_register := None,
        m_not_ready := replicate (length (m_not_ready cu)) False\<rparr>"

text \<open>The calls \<^verbatim>\<open>collect_operand(op)\<close> for the operands of a list, in order.\<close>

fun collect_operands :: "nat list \<Rightarrow> collector_unit_t \<Rightarrow> fatal + collector_unit_t" where
  "collect_operands [] cu = Inr cu"
| "collect_operands (op # ops) cu =
     (case collect_operand op cu of Inl e \<Rightarrow> Inl e | Inr cu' \<Rightarrow> collect_operands ops cu')"

text \<open>Bitwise order on masks: every bit set in \<open>a\<close> is set in \<open>b\<close>.\<close>

definition mask_le :: "bool list \<Rightarrow> bool list \<Rightarrow> bool" where
  "mask_le a b = (length a = length b \<and> list_all2 (\<lambda>x y. x \<longrightarrow> y) a b)"

subsection \<open>Dispatch units\<close>

record dispatch_unit_t =
  du_num_collectors :: nat
  du_last_cu :: nat
  du_next_cu :: nat
  du_sub_core_model :: bool
  du_num_warp_scheds :: nat

text \<open>
  The constructor \<^verbatim>\<open>dispatch_unit_t(cus)\<close> and \<^verbatim>\<open>init\<close>.  The vector \<^verbatim>\<open>*m_collector_units\<close>
  is passed to \<open>find_ready\<close> as the list \<open>cus\<close>.
\<close>

definition dispatch_unit_t_new :: "'c list \<Rightarrow> bool \<Rightarrow> nat \<Rightarrow> dispatch_unit_t" where
  "dispatch_unit_t_new cus sub_core_model num_warp_scheds =
     \<lparr>du_num_collectors = u32 (length cus), du_last_cu = 0, du_next_cu = 0,
      du_sub_core_model = sub_core_model, du_num_warp_scheds = num_warp_scheds\<rparr>"

text \<open>
  The loop of \<^verbatim>\<open>find_ready\<close>, from its counter \<open>n\<close> on.  \<^verbatim>\<open>collector_unit_t::ready\<close> is
  declared in the header only and is the parameter \<open>ready\<close>.  The result is the index of
  the unit whose address the C++ returns, \<open>None\<close> for \<^verbatim>\<open>NULL\<close>, with the dispatch unit as
  the call leaves it.  The counter stays below \<^verbatim>\<open>m_num_collectors\<close>, itself an
  \<^verbatim>\<open>unsigned\<close>, so \<^verbatim>\<open>n++\<close> never wraps.  An index outside the vector is undefined
  behaviour in C++ and \<open>Index_out_of_bounds\<close> here.
\<close>

function find_ready_loop ::
  "('c \<Rightarrow> bool) \<Rightarrow> 'c list \<Rightarrow> nat \<Rightarrow> nat \<Rightarrow> dispatch_unit_t \<Rightarrow>
   fatal + (nat option \<times> dispatch_unit_t)" where
  "find_ready_loop ready cus rr_increment n du =
     (if n < du_num_collectors du then
        (let c = u32 (u32 (du_last_cu du + n) + rr_increment) mod du_num_collectors du in
         if \<not> c < length cus then Inl Index_out_of_bounds
         else if ready (cus ! c) then Inr (Some c, du\<lparr>du_last_cu := c\<rparr>)
         else find_ready_loop ready cus rr_increment (n + 1) du)
      else Inr (None, du))"
  by pat_completeness auto
termination
  by (relation "measure (\<lambda>(ready, cus, rr, n, du). du_num_collectors du - n)") auto

declare find_ready_loop.simps [simp del]

text \<open>
  \<^verbatim>\<open>find_ready\<close>.  Both divisions are by a member that may be zero; dividing by zero is
  undefined behaviour.  \<^verbatim>\<open>m_last_cu % cusPerSched\<close> is smaller than \<^verbatim>\<open>cusPerSched\<close>, so the
  subtraction does not wrap.
\<close>

definition find_ready ::
  "('c \<Rightarrow> bool) \<Rightarrow> 'c list \<Rightarrow> dispatch_unit_t \<Rightarrow> fatal + (nat option \<times> dispatch_unit_t)" where
  "find_ready ready cus du =
     (if du_num_warp_scheds du = 0 then Inl Undefined_behaviour
      else
        (let cusPerSched = du_num_collectors du div du_num_warp_scheds du in
         if du_sub_core_model du then
           (if cusPerSched = 0 then Inl Undefined_behaviour
            else find_ready_loop ready cus
                   (u32 (cusPerSched - du_last_cu du mod cusPerSched)) 0 du)
         else find_ready_loop ready cus 1 0 du))"

text \<open>The order in which \<open>find_ready\<close> visits the collector units, as the claim states it.\<close>

definition rr_increment_of :: "dispatch_unit_t \<Rightarrow> nat" where
  "rr_increment_of du =
     (if du_sub_core_model du
      then du_num_collectors du div du_num_warp_scheds du
           - du_last_cu du mod (du_num_collectors du div du_num_warp_scheds du)
      else 1)"

definition scan_order :: "dispatch_unit_t \<Rightarrow> nat list" where
  "scan_order du =
     map (\<lambda>n. (du_last_cu du + n + rr_increment_of du) mod du_num_collectors du)
       [0..<du_num_collectors du]"

subsection \<open>Concrete units for the examples\<close>

text \<open>
  An operand of collector unit 0 in bank 1; a register file unit with four banks, two
  collector units and one input port; phases of \<open>step\<close> that allocate bank 1 for a read
  and bank 2 for a write and otherwise do nothing.
\<close>

definition example_op :: op_t where
  "example_op =
     \<lparr>m_valid = True, m_cu = Some 0, m_warp = None, m_operand = 0, m_register = 5,
      m_bank = 1, m_shced_id = 0\<rparr>"

definition example_arbiter :: arbiter_t where
  "example_arbiter =
     \<lparr>m_num_banks = 4, m_num_collectors = 2,
      m_allocated_bank = replicate 4 allocation_t_new,
      m_queue = replicate 4 [],
      m_allocator_rr_head = [0, 1],
      m_last_cu = 0\<rparr>"

definition example_rfu :: opndcoll_rfu_t where
  "example_rfu = \<lparr>m_arbiter = example_arbiter, m_in_ports_size = 1\<rparr>"

definition example_allocate_reads :: "opndcoll_rfu_t \<Rightarrow> fatal + opndcoll_rfu_t" where
  "example_allocate_reads rfu =
     (case allocate_for_read 1 example_op (m_arbiter rfu) of
        Inl e \<Rightarrow> Inl e
      | Inr arb \<Rightarrow> Inr (rfu\<lparr>m_arbiter := arb\<rparr>))"

definition example_allocate_cu :: "nat \<Rightarrow> opndcoll_rfu_t \<Rightarrow> fatal + opndcoll_rfu_t" where
  "example_allocate_cu p rfu =
     (case allocate_bank_for_write 2 example_op (m_arbiter rfu) of
        Inl e \<Rightarrow> Inl e
      | Inr arb \<Rightarrow> Inr (rfu\<lparr>m_arbiter := arb\<rparr>))"

text \<open>The register file unit after one \<open>step\<close> with these phases.\<close>

definition example_rfu_after :: opndcoll_rfu_t where
  "example_rfu_after =
     example_rfu\<lparr>m_arbiter := example_arbiter\<lparr>m_allocated_bank :=
       [allocation_t_new, allocation_t_new\<lparr>m_op := example_op\<rparr>,
        allocation_t_new\<lparr>m_op := example_op\<rparr>, allocation_t_new]\<rparr>\<rparr>"

text \<open>
  A collector unit that waits for operands 0, 1 and 3, and a dispatch unit over four
  collector units in sub-core mode with two schedulers, which dispatched unit 1 last.  For
  the example the collector units are their own ready flags.
\<close>

definition example_cu :: collector_unit_t where
  "example_cu =
     (collector_unit_t_new 2)\<lparr>m_free := False, m_warp_id := 3, m_warp_inst := Some 17,
        m_output_register := Some 1, m_not_ready := [True, True, False, True]\<rparr>"

definition example_du :: dispatch_unit_t where
  "example_du = (dispatch_unit_t_new [False, True, False, True] True 2)\<lparr>du_last_cu := 1\<rparr>"

section \<open>The simulation driver (bridge/main.cc)\<close>

subsection \<open>The C library's atoi\<close>

text \<open>
  \<^verbatim>\<open>atoi\<close> skips white space, reads an optional sign and then decimal digits up to the
  first character that is not one; without digits the value is 0.  The C standard leaves
  the behaviour undefined when the value is not representable as an \<^verbatim>\<open>int\<close>: the result
  is \<open>None\<close> then.
\<close>

definition INT_MAX :: int where
  "INT_MAX = 2 ^ 31 - 1"

definition INT_MIN :: int where
  "INT_MIN = - (2 ^ 31)"

definition isspace :: "char \<Rightarrow> bool" where
  "isspace c = ((of_char c :: nat) = 32 \<or> (9 \<le> (of_char c :: nat) \<and> (of_char c :: nat) \<le> 13))"

definition isdigit :: "char \<Rightarrow> bool" where
  "isdigit c = (48 \<le> (of_char c :: nat) \<and> (of_char c :: nat) \<le> 57)"

fun digits_value :: "int \<Rightarrow> string \<Rightarrow> int" where
  "digits_value acc [] = acc"
| "digits_value acc (c # cs) =
     (if isdigit c then digits_value (10 * acc + (int (of_char c) - 48)) cs else acc)"

definition atoi :: "string \<Rightarrow> int option" where
  "atoi s =
     (let t = dropWhile isspace s;
          v = (case t of
                 [] \<Rightarrow> 0
               | c # r \<Rightarrow>
                   if c = CHR ''-'' then - digits_value 0 r
                   else if c = CHR ''+'' then digits_value 0 r
                   else digits_value 0 t)
      in if INT_MIN \<le> v \<and> v \<le> INT_MAX then Some v else None)"

text \<open>The decimal notation of a natural number, to state what \<open>atoi\<close> reads and to print.\<close>

definition digit_char :: "nat \<Rightarrow> char" where
  "digit_char d = ''0123456789'' ! d"

fun decimal :: "nat \<Rightarrow> string" where
  "decimal n =
     (if n < 10 then [digit_char n]
      else decimal (n div 10) @ [digit_char (n mod 10)])"

declare decimal.simps [simp del]

subsection \<open>Configuration from the environment\<close>

text \<open>
  The constructor of \<^verbatim>\<open>accelsim_bridge\<close> reads two environment variables; \<open>getenv\<close> maps
  a variable to its value, \<open>None\<close> when it is unset.  \<open>configure_max_cycle_opt\<close> is the
  value the constructor leaves in \<^verbatim>\<open>gpu_max_cycle_opt\<close>, an \<^verbatim>\<open>unsigned long long\<close>.
\<close>

definition ULLONG_MAX :: nat where
  "ULLONG_MAX = 2 ^ 64 - 1"

definition configure_silent :: "(string \<Rightarrow> string option) \<Rightarrow> bool" where
  "configure_silent getenv = (getenv ''SILENT'' = Some ''yes'')"

definition configure_max_cycle_opt :: "(string \<Rightarrow> string option) \<Rightarrow> fatal + nat" where
  "configure_max_cycle_opt getenv =
     (case getenv ''CYCLES'' of
        None \<Rightarrow> Inr ULLONG_MAX
      | Some s \<Rightarrow>
          (case atoi s of
             None \<Rightarrow> Inl Undefined_behaviour
           | Some v \<Rightarrow> if v > 0 then Inr (nat v mod 2 ^ 64) else Inr ULLONG_MAX))"

text \<open>The environment in which only \<^verbatim>\<open>CYCLES\<close> is set.\<close>

definition env_cycles :: "string \<Rightarrow> string \<Rightarrow> string option" where
  "env_cycles s var = (if var = ''CYCLES'' then Some s else None)"

subsection \<open>Commands, kernels and the bridge\<close>

text \<open>
  Modelled from the spec: \<^verbatim>\<open>command_type\<close> and \<^verbatim>\<open>trace_command\<close> are declared with the
  trace parser, which is not among the sources.  The specification gives a command a type
  out of cpu\_gpu\_mem\_copy and kernel\_launch and an argument string; the driver has a
  branch for any other value of the type, here \<open>other_command k\<close>.
\<close>

datatype command_type = cpu_gpu_mem_copy | kernel_launch | other_command nat

record trace_command =
  command_string :: string
  command_m_type :: command_type

text \<open>
  What the driver reads of a \<^verbatim>\<open>trace_kernel_info_t\<close>: \<^verbatim>\<open>get_uid()\<close>, \<^verbatim>\<open>get_name()\<close>,
  \<^verbatim>\<open>get_cuda_stream_id()\<close> and \<^verbatim>\<open>was_launched()\<close>.
\<close>

record kernel_info =
  uid :: nat
  name :: string
  cuda_stream_id :: nat
  launched :: bool

text \<open>
  The performance model \<^verbatim>\<open>m_gpgpu_sim\<close> (with its context and stream manager) and the
  trace parser are external to the driver.  Their state is a value of type \<open>'g\<close>, and the
  member functions the driver calls are the fields of \<open>simulator\<close>:
  \<open>parse_kernel_info\<close> stands for \<^verbatim>\<open>tracer->parse_kernel_info\<close> followed by
  \<^verbatim>\<open>create_kernel_info\<close>, \<open>gpu_cycle\<close> for \<^verbatim>\<open>cycle()\<close> (or \<^verbatim>\<open>simple_cycle()\<close>),
  \<open>gpu_deadlock_check\<close> may abort, \<open>gpu_finished_kernel\<close> returns a kernel uid (0 for none)
  and the state without it, and \<open>gpu_update_stats\<close> stands for \<^verbatim>\<open>update_stats()\<close> and
  \<^verbatim>\<open>print_simulation_time()\<close>.  \<^verbatim>\<open>tracer->kernel_finalizer\<close> and the two \<^verbatim>\<open>delete\<close>s
  release a retired kernel and leave the simulator as it is.
\<close>

record 'g simulator =
  parse_memcpy_info :: "string \<Rightarrow> nat \<times> nat"
  parse_kernel_info :: "string \<Rightarrow> kernel_info"
  gpu_perf_memcpy_to_gpu :: "nat \<Rightarrow> nat \<Rightarrow> 'g \<Rightarrow> 'g"
  gpu_active :: "'g \<Rightarrow> bool"
  gpu_cycle :: "'g \<Rightarrow> 'g"
  gpu_deadlock_check :: "'g \<Rightarrow> fatal + 'g"
  gpu_finished_kernel :: "'g \<Rightarrow> nat \<times> 'g"
  gpu_cycle_insn_cta_max_hit :: "'g \<Rightarrow> bool"
  gpu_can_start_kernel :: "'g \<Rightarrow> bool"
  gpu_launch :: "kernel_info \<Rightarrow> 'g \<Rightarrow> 'g"
  gpu_stop_all_running_kernels :: "'g \<Rightarrow> 'g"
  gpu_sim_cycle :: "'g \<Rightarrow> nat"
  gpu_update_stats :: "'g \<Rightarrow> 'g"

text \<open>
  The data members of \<^verbatim>\<open>accelsim_bridge\<close>; \<open>m_gpgpu_sim\<close> is the state of the external
  simulator and \<open>stdout\<close> the lines the driver itself has printed.
\<close>

record 'g accelsim_bridge =
  silent :: bool
  m_gpgpu_sim :: 'g
  commandlist :: "trace_command list"
  command_idx :: nat
  window_size :: nat
  kernels_info :: "kernel_info list"
  busy_streams :: "nat list"
  stdout :: "string list"

definition print :: "string \<Rightarrow> 'g accelsim_bridge \<Rightarrow> 'g accelsim_bridge" where
  "print line b = b\<lparr>stdout := stdout b @ [line]\<rparr>"

definition limit_reached :: "'g simulator \<Rightarrow> 'g accelsim_bridge \<Rightarrow> bool" where
  "limit_reached sim b = gpu_cycle_insn_cta_max_hit sim (m_gpgpu_sim b)"

definition active :: "'g simulator \<Rightarrow> 'g accelsim_bridge \<Rightarrow> bool" where
  "active sim b = gpu_active sim (m_gpgpu_sim b)"

definition get_finished_kernel_uid ::
  "'g simulator \<Rightarrow> 'g accelsim_bridge \<Rightarrow> nat \<times> 'g accelsim_bridge" where
  "get_finished_kernel_uid sim b =
     (case gpu_finished_kernel sim (m_gpgpu_sim b) of (k, g) \<Rightarrow> (k, b\<lparr>m_gpgpu_sim := g\<rparr>))"

text \<open>
  Modelled from the spec: \<^verbatim>\<open>commands_left\<close> and \<^verbatim>\<open>kernels_left\<close> are declared in main.hpp,
  which is not among the sources.  The loop condition they replace is kept as a comment in
  \<^verbatim>\<open>run_to_completion\<close> (\<^verbatim>\<open>i < commandlist.size() || !kernels_info.empty()\<close>), and the
  specification ends the driver when the window is empty and the command list exhausted.
\<close>

definition commands_left :: "'g accelsim_bridge \<Rightarrow> bool" where
  "commands_left b = (command_idx b < length (commandlist b))"

definition kernels_left :: "'g accelsim_bridge \<Rightarrow> bool" where
  "kernels_left b = (kernels_info b \<noteq> [])"

subsection \<open>process\_commands\<close>

function process_commands ::
  "'g simulator \<Rightarrow> 'g accelsim_bridge \<Rightarrow> fatal + 'g accelsim_bridge" where
  "process_commands sim b =
     (if length (kernels_info b) < window_size b \<and> command_idx b < length (commandlist b)
      then
        (let cmd = commandlist b ! command_idx b in
         if command_m_type cmd = cpu_gpu_mem_copy then
           (case parse_memcpy_info sim (command_string cmd) of
              (addre, Bcount) \<Rightarrow>
                process_commands sim
                  ((print (''launching memcpy command : '' @ command_string cmd) b)
                     \<lparr>m_gpgpu_sim := gpu_perf_memcpy_to_gpu sim addre Bcount (m_gpgpu_sim b),
                      command_idx := command_idx b + 1\<rparr>))
         else if command_m_type cmd = kernel_launch then
           process_commands sim
             ((print (''Header info loaded for kernel command : '' @ command_string cmd)
                 (b\<lparr>kernels_info :=
                      kernels_info b @ [parse_kernel_info sim (command_string cmd)]\<rparr>))
                \<lparr>command_idx := command_idx b + 1\<rparr>)
         else Inl (Runtime_error ''undefined command''))
      else Inr b)"
  by pat_completeness auto
termination
  by (relation "measure (\<lambda>(sim, b). length (commandlist b) - command_idx b)")
     (auto simp: print_def)

declare process_commands.simps [simp del]

text \<open>
  The commands between two positions of the cursor, and what the driver does with the
  memory copies among them.
\<close>

definition consumed :: "'g accelsim_bridge \<Rightarrow> 'g accelsim_bridge \<Rightarrow> trace_command list" where
  "consumed b b' = take (command_idx b' - command_idx b) (drop (command_idx b) (commandlist b))"

definition forward_memcpy :: "'g simulator \<Rightarrow> 'g \<Rightarrow> trace_command \<Rightarrow> 'g" where
  "forward_memcpy sim g cmd =
     (case parse_memcpy_info sim (command_string cmd) of
        (addre, Bcount) \<Rightarrow> gpu_perf_memcpy_to_gpu sim addre Bcount g)"

subsection \<open>launch\_kernels, cycle, cleanup\_finished\_kernel\<close>

fun launch_kernels_from ::
  "'g simulator \<Rightarrow> nat list \<Rightarrow> 'g accelsim_bridge \<Rightarrow> 'g accelsim_bridge" where
  "launch_kernels_from sim [] b = b"
| "launch_kernels_from sim (i # is) b =
     (let k = kernels_info b ! i;
          stream_busy = (cuda_stream_id k \<in> set (busy_streams b))
      in if \<not> stream_busy \<and> gpu_can_start_kernel sim (m_gpgpu_sim b) \<and> \<not> launched k then
           launch_kernels_from sim is
             ((print (''launching kernel name: '' @ name k @ '' uid: '' @ decimal (uid k)) b)
                \<lparr>m_gpgpu_sim := gpu_launch sim k (m_gpgpu_sim b),
                 kernels_info := (kernels_info b)[i := k\<lparr>launched := True\<rparr>],
                 busy_streams := busy_streams b @ [cuda_stream_id k]\<rparr>)
         else launch_kernels_from sim is b)"

definition launch_kernels :: "'g simulator \<Rightarrow> 'g accelsim_bridge \<Rightarrow> 'g accelsim_bridge" where
  "launch_kernels sim b = launch_kernels_from sim [0..<length (kernels_info b)] b"

definition cycle :: "'g simulator \<Rightarrow> 'g accelsim_bridge \<Rightarrow> fatal + 'g accelsim_bridge" where
  "cycle sim b =
     (if active sim b then
        (case gpu_deadlock_check sim (gpu_cycle sim (m_gpgpu_sim b)) of
           Inl e \<Rightarrow> Inl e
         | Inr g \<Rightarrow> Inr (b\<lparr>m_gpgpu_sim := g\<rparr>))
      else if gpu_cycle_insn_cta_max_hit sim (m_gpgpu_sim b) then
        Inr (b\<lparr>m_gpgpu_sim := gpu_stop_all_running_kernels sim (m_gpgpu_sim b)\<rparr>)
      else Inr b)"

text \<open>
  The loop of \<^verbatim>\<open>cleanup_finished_kernel\<close> from its counter \<open>j\<close> on.  Erasing element \<open>j\<close>
  moves the next kernel to position \<open>j\<close>, and the loop goes on at \<open>j + 1\<close>.
\<close>

function cleanup_loop ::
  "'g simulator \<Rightarrow> nat \<Rightarrow> nat \<Rightarrow> 'g accelsim_bridge \<Rightarrow> 'g accelsim_bridge" where
  "cleanup_loop sim finished_kernel_uid j b =
     (if j < length (kernels_info b) then
        (let k = kernels_info b ! j in
         if uid k = finished_kernel_uid \<or> gpu_cycle_insn_cta_max_hit sim (m_gpgpu_sim b)
            \<or> \<not> active sim b
         then
           (let b' = b\<lparr>busy_streams := remove1 (cuda_stream_id k) (busy_streams b),
                       kernels_info := take j (kernels_info b) @ drop (Suc j) (kernels_info b)\<rparr>
            in if \<not> gpu_cycle_insn_cta_max_hit sim (m_gpgpu_sim b') \<and> active sim b' then b'
               else cleanup_loop sim finished_kernel_uid (j + 1) b')
         else cleanup_loop sim finished_kernel_uid (j + 1) b)
      else b)"
  by pat_completeness auto
termination
  by (relation "measure (\<lambda>(sim, u, j, b). length (kernels_info b) - j)") auto

declare cleanup_loop.simps [simp del]

text \<open>
  \<^verbatim>\<open>assert(k)\<close>: the pointer \<open>k\<close> is set by the first pass through the loop body, so the
  assertion fails exactly when the window was empty.
\<close>

definition cleanup_finished_kernel ::
  "'g simulator \<Rightarrow> nat \<Rightarrow> 'g accelsim_bridge \<Rightarrow> fatal + 'g accelsim_bridge" where
  "cleanup_finished_kernel sim finished_kernel_uid b =
     (case (if finished_kernel_uid \<noteq> 0 \<or> gpu_cycle_insn_cta_max_hit sim (m_gpgpu_sim b)
               \<or> \<not> active sim b
            then (if kernels_info b = [] then Inl Assertion_failed
                  else Inr (cleanup_loop sim finished_kernel_uid 0 b))
            else Inr b) of
        Inl e \<Rightarrow> Inl e
      | Inr b' \<Rightarrow>
          if \<not> silent b' \<and> gpu_sim_cycle sim (m_gpgpu_sim b') > 0
          then Inr (b'\<lparr>m_gpgpu_sim := gpu_update_stats sim (m_gpgpu_sim b')\<rparr>)
          else Inr b')"

subsection \<open>run\_to\_completion\<close>

text \<open>
  The inner \<^verbatim>\<open>do ... while (true)\<close>: it returns the uid of a finished kernel, or 0 when the
  simulator stopped being active.  Nothing bounds the number of cycles, so the loop is a
  partial function and \<open>None\<close> stands for a loop that never ends.
\<close>

partial_function (option) simulate ::
  "'g simulator \<Rightarrow> 'g accelsim_bridge \<Rightarrow> (fatal + nat \<times> 'g accelsim_bridge) option" where
  "simulate sim b =
     (if \<not> active sim b then Some (Inr (0, b))
      else
        (case cycle sim b of
           Inl e \<Rightarrow> Some (Inl e)
         | Inr b' \<Rightarrow>
             (case get_finished_kernel_uid sim b' of
                (finished_kernel_uid, b'') \<Rightarrow>
                  if finished_kernel_uid \<noteq> 0 then Some (Inr (finished_kernel_uid, b''))
                  else simulate sim b'')))"

declare simulate.simps [code]

text \<open>
  One pass through the body of the outer loop, up to the test of the cap: fill the window,
  launch, simulate, retire.
\<close>

definition iteration ::
  "'g simulator \<Rightarrow> 'g accelsim_bridge \<Rightarrow> (fatal + 'g accelsim_bridge) option" where
  "iteration sim b =
     (case process_commands sim b of
        Inl e \<Rightarrow> Some (Inl e)
      | Inr b1 \<Rightarrow>
          (case simulate sim (launch_kernels sim b1) of
             None \<Rightarrow> None
           | Some (Inl e) \<Rightarrow> Some (Inl e)
           | Some (Inr (finished_kernel_uid, b2)) \<Rightarrow>
               Some (cleanup_finished_kernel sim finished_kernel_uid b2)))"

definition max_cycles_notice :: string where
  "max_cycles_notice =
     ''GPGPU-Sim: ** break due to reaching the maximum cycles (or instructions) **''"

partial_function (option) run_loop ::
  "'g simulator \<Rightarrow> 'g accelsim_bridge \<Rightarrow> (fatal + 'g accelsim_bridge) option" where
  "run_loop sim b =
     (if commands_left b \<or> kernels_left b then
        Option.bind (iteration sim b)
          (\<lambda>r. case r of
                  Inl e \<Rightarrow> Some (Inl e)
                | Inr b' \<Rightarrow>
                    if gpu_cycle_insn_cta_max_hit sim (m_gpgpu_sim b')
                    then Some (Inr (print max_cycles_notice b'))
                    else run_loop sim b')
      else Some (Inr b))"

declare run_loop.simps [code]

definition exit_messages :: "'g accelsim_bridge \<Rightarrow> 'g accelsim_bridge" where
  "exit_messages b =
     print ''GPGPU-Sim: *** exit detected ***''
       (print ''GPGPU-Sim: *** simulation thread exiting ***'' b)"

definition run_to_completion ::
  "'g simulator \<Rightarrow> 'g accelsim_bridge \<Rightarrow> (fatal + 'g accelsim_bridge) option" where
  "run_to_completion sim b =
     (case run_loop sim b of
        None \<Rightarrow> None
      | Some (Inl e) \<Rightarrow> Some (Inl e)
      | Some (Inr b') \<Rightarrow> Some (Inr (exit_messages b')))"

subsection \<open>A small simulator for the examples\<close>

text \<open>
  A simulator whose state is the number of cycles run and the memory copies received.  It
  is active for three cycles, then reports that the cycle cap is hit; no kernel ever
  finishes.  The bridge has one memory copy and two kernel launches to process, with a
  window of one kernel.
\<close>

definition toy_sim :: "(nat \<times> (nat \<times> nat) list) simulator" where
  "toy_sim =
     \<lparr>parse_memcpy_info = (\<lambda>s. (length s, 64)),
      parse_kernel_info =
        (\<lambda>s. \<lparr>uid = length s, name = s, cuda_stream_id = 0, launched = False\<rparr>),
      gpu_perf_memcpy_to_gpu = (\<lambda>addre Bcount g. (fst g, snd g @ [(addre, Bcount)])),
      gpu_active = (\<lambda>g. fst g < 3),
      gpu_cycle = (\<lambda>g. (fst g + 1, snd g)),
      gpu_deadlock_check = Inr,
      gpu_finished_kernel = (\<lambda>g. (0, g)),
      gpu_cycle_insn_cta_max_hit = (\<lambda>g. 3 \<le> fst g),
      gpu_can_start_kernel = (\<lambda>g. True),
      gpu_launch = (\<lambda>k g. g),
      gpu_stop_all_running_kernels = (\<lambda>g. g),
      gpu_sim_cycle = fst,
      gpu_update_stats = (\<lambda>g. g)\<rparr>"

definition toy_commands :: "trace_command list" where
  "toy_commands =
     [\<lparr>command_string = ''MemcpyHtoD,0x1000,64'', command_m_type = cpu_gpu_mem_copy\<rparr>,
      \<lparr>command_string = ''kernel-1'', command_m_type = kernel_launch\<rparr>,
      \<lparr>command_string = ''kernel-2'', command_m_type = kernel_launch\<rparr>]"

definition toy_bridge :: "(nat \<times> (nat \<times> nat) list) accelsim_bridge" where
  "toy_bridge =
     \<lparr>silent = True, m_gpgpu_sim = (0, []), commandlist = toy_commands,
      command_idx = 0, window_size = 1, kernels_info = [], busy_streams = [],
      stdout = []\<rparr>"

text \<open>The bridge after \<open>process_commands\<close>, and after one pass of the outer loop.\<close>

definition toy_bridge_filled :: "(nat \<times> (nat \<times> nat) list) accelsim_bridge" where
  "toy_bridge_filled =
     toy_bridge
       \<lparr>m_gpgpu_sim := (0, [(20, 64)]), command_idx := 2,
        kernels_info := [\<lparr>uid = 8, name = ''kernel-1'', cuda_stream_id = 0, launched = False\<rparr>],
        stdout := [''launching memcpy command : MemcpyHtoD,0x1000,64'',
                   ''Header info loaded for kernel command : kernel-1'']\<rparr>"

definition toy_bridge_capped :: "(nat \<times> (nat \<times> nat) list) accelsim_bridge" where
  "toy_bridge_capped =
     toy_bridge
       \<lparr>m_gpgpu_sim := (3, [(20, 64)]), command_idx := 2, kernels_info := [],
        busy_streams := [],
        stdout := [''launching memcpy command : MemcpyHtoD,0x1000,64'',
                   ''Header info loaded for kernel command : kernel-1'',
                   ''launching kernel name: kernel-1 uid: 8'']\<rparr>"

text \<open>
  What \<open>process_commands\<close> accepts, and what it guarantees between the bridge it is called
  on and the bridge it returns.
\<close>

definition accepted :: "trace_command \<Rightarrow> bool" where
  "accepted c = (command_m_type c = cpu_gpu_mem_copy \<or> command_m_type c = kernel_launch)"

definition fill_post ::
  "'g simulator \<Rightarrow> 'g accelsim_bridge \<Rightarrow> 'g accelsim_bridge \<Rightarrow> bool" where
  "fill_post sim b b' =
     (commandlist b' = commandlist b \<and> window_size b' = window_size b
      \<and> command_idx b \<le> command_idx b'
      \<and> (command_idx b' \<le> length (commandlist b) \<or> command_idx b' = command_idx b)
      \<and> list_all accepted (consumed b b')
      \<and> kernels_info b' =
          kernels_info b @
            map (\<lambda>c. parse_kernel_info sim (command_string c))
              (filter (\<lambda>c. command_m_type c = kernel_launch) (consumed b b'))
      \<and> m_gpgpu_sim b' =
          foldl (forward_memcpy sim) (m_gpgpu_sim b)
            (filter (\<lambda>c. command_m_type c = cpu_gpu_mem_copy) (consumed b b'))
      \<and> (window_size b' \<le> length (kernels_info b')
          \<or> length (commandlist b') \<le> command_idx b'))"

text \<open>
  The number of kernels in the window when the cursor, on its way from its position in \<open>b\<close>,
  comes to position \<open>j\<close>: the kernels of \<open>b\<close> and one more for every kernel launch passed.
  \<open>undefined_command_at b j\<close>: the cursor comes to position \<open>j\<close> over memory copies and kernel
  launches only, the window still has room there, and the command at \<open>j\<close> is of another
  type.
\<close>

definition window_before :: "'g accelsim_bridge \<Rightarrow> nat \<Rightarrow> nat" where
  "window_before b j =
     length (kernels_info b)
     + length (filter (\<lambda>c. command_m_type c = kernel_launch)
                (take (j - command_idx b) (drop (command_idx b) (commandlist b))))"

definition undefined_command_at :: "'g accelsim_bridge \<Rightarrow> nat \<Rightarrow> bool" where
  "undefined_command_at b j =
     (command_idx b \<le> j \<and> j < length (commandlist b)
      \<and> list_all accepted (take (j - command_idx b) (drop (command_idx b) (commandlist b)))
      \<and> window_before b j < window_size b
      \<and> \<not> accepted (commandlist b ! j))"

text \<open>
  The simulator on its own, run from state \<open>g\<close> as the inner loop of \<^verbatim>\<open>run_to_completion\<close>
  runs it: the uid and the state with which the loop breaks if it does so within \<open>n\<close>
  cycles without a deadlock abort, and \<open>None\<close> otherwise.
\<close>

fun simulate_within :: "nat \<Rightarrow> 'g simulator \<Rightarrow> 'g \<Rightarrow> (nat \<times> 'g) option" where
  "simulate_within 0 sim g = (if \<not> gpu_active sim g then Some (0, g) else None)"
| "simulate_within (Suc n) sim g =
     (if \<not> gpu_active sim g then Some (0, g)
      else
        (case gpu_deadlock_check sim (gpu_cycle sim g) of
           Inl e \<Rightarrow> None
         | Inr g' \<Rightarrow>
             (case gpu_finished_kernel sim g' of
                (finished_kernel_uid, g'') \<Rightarrow>
                  if finished_kernel_uid \<noteq> 0 then Some (finished_kernel_uid, g'')
                  else simulate_within n sim g'')))"

text \<open>
  The bridge with the memory copy as its only command, and that bridge when the simulation
  loop of its first pass has ended: the cap is hit and the window is empty.
\<close>

definition memcpy_bridge :: "(nat \<times> (nat \<times> nat) list) accelsim_bridge" where
  "memcpy_bridge = toy_bridge\<lparr>commandlist := take 1 toy_commands\<rparr>"

definition memcpy_bridge_capped :: "(nat \<times> (nat \<times> nat) list) accelsim_bridge" where
  "memcpy_bridge_capped =
     memcpy_bridge
       \<lparr>m_gpgpu_sim := (3, [(20, 64)]), command_idx := 1,
        stdout := [''launching memcpy command : MemcpyHtoD,0x1000,64'']\<rparr>"

text \<open>The bridge whose second command is neither a memory copy nor a kernel launch.\<close>

definition undefined_bridge :: "(nat \<times> (nat \<times> nat) list) accelsim_bridge" where
  "undefined_bridge =
     toy_bridge
       \<lparr>commandlist :=
          [\<lparr>command_string = ''MemcpyHtoD,0x1000,64'', command_m_type = cpu_gpu_mem_copy\<rparr>,
           \<lparr>command_string = ''cudaFree'', command_m_type = other_command 0\<rparr>]\<rparr>"
section \<open>The anynet topology (intersim2/networks/anynet.cpp)\<close>

subsection \<open>Ordered maps\<close>

text \<open>
  A \<^verbatim>\<open>std::map<int, V>\<close> is the list of its entries in increasing order of the keys, the
  order in which the C++ iterates over it.  \<open>map_set\<close> is the assignment \<^verbatim>\<open>m[k] = v\<close>,
  \<open>map_count\<close> is \<^verbatim>\<open>m.count(k)\<close>, and \<open>map_at\<close> reads \<^verbatim>\<open>m[k]\<close>, which is the default value
  for a key that is absent.  Reading \<^verbatim>\<open>m[k]\<close> for an absent key also inserts the default
  value; no later lookup or iteration of this file can tell such an entry from an absent
  one (the sizes of the maps are read before), so the model leaves the map as it is.
\<close>

type_synonym 'v imap = "(int \<times> 'v) list"

fun map_set :: "int \<Rightarrow> 'v \<Rightarrow> 'v imap \<Rightarrow> 'v imap" where
  "map_set k v [] = [(k, v)]"
| "map_set k v ((k', v') # m) =
     (if k < k' then (k, v) # (k', v') # m
      else if k = k' then (k, v) # m
      else (k', v') # map_set k v m)"

definition map_count :: "int \<Rightarrow> 'v imap \<Rightarrow> nat" where
  "map_count k m = (case map_of m k of None \<Rightarrow> 0 | Some v \<Rightarrow> 1)"

definition map_at :: "'v \<Rightarrow> 'v imap \<Rightarrow> int \<Rightarrow> 'v" where
  "map_at dflt m k = (case map_of m k of None \<Rightarrow> dflt | Some v \<Rightarrow> v)"

text \<open>
  A link is the pair \<^verbatim>\<open>std::pair<int, int>\<close> of an output port and a latency, and a
  \<open>links\<close> table maps a router to its links by the identifier at the other end.
\<close>

type_synonym links = "(int \<times> int) imap imap"

definition links_of :: "links \<Rightarrow> int \<Rightarrow> (int \<times> int) imap" where
  "links_of t r = map_at [] t r"

text \<open>\<^verbatim>\<open>t[a][b] = link\<close> and \<^verbatim>\<open>t[a][b].second = w\<close>.\<close>

definition set_link :: "int \<Rightarrow> int \<Rightarrow> int \<times> int \<Rightarrow> links \<Rightarrow> links" where
  "set_link a b link t = map_set a (map_set b link (links_of t a)) t"

definition set_second :: "int \<Rightarrow> int \<Rightarrow> int \<Rightarrow> links \<Rightarrow> links" where
  "set_second a b w t =
     set_link a b (fst (map_at (0, 0) (links_of t a) b), w) t"

subsection \<open>The network description\<close>

datatype ParseState = HEAD_TYPE | HEAD_ID | BODY_TYPE | BODY_ID | LINK_WEIGHT

datatype ParseType = NODE | ROUTER | UNKNOWN

text \<open>
  The data members of \<^verbatim>\<open>AnyNet\<close> that describe the topology: \<open>router_list_NODE\<close> is
  \<^verbatim>\<open>router_list[0]\<close> (router to node), \<open>router_list_ROUTER\<close> is \<^verbatim>\<open>router_list[1]\<close> (router
  to router), and \<open>routing_table\<close> is the vector indexed by router.
\<close>

record AnyNet =
  router_list_NODE :: links
  router_list_ROUTER :: links
  node_list :: "int imap"
  routing_table :: "int imap list"

definition AnyNet_empty :: AnyNet where
  "AnyNet_empty =
     \<lparr>router_list_NODE = [], router_list_ROUTER = [], node_list = [], routing_table = []\<rparr>"

text \<open>The local variables of \<^verbatim>\<open>readFile\<close> that live for one line.\<close>

record line_vars =
  state :: ParseState
  head_id :: int
  head_type :: ParseType
  body_type :: ParseType
  body_id :: int
  link_weight :: int

definition line_start :: line_vars where
  "line_start =
     \<lparr>state = HEAD_TYPE, head_id = - 1, head_type = UNKNOWN, body_type = UNKNOWN,
      body_id = - 1, link_weight = 1\<rparr>"

text \<open>
  The pieces of a line between single spaces, as \<^verbatim>\<open>line.find(" ", pos)\<close> and
  \<^verbatim>\<open>line.substr\<close> cut them; the loop skips the empty ones.
\<close>

fun pieces :: "string \<Rightarrow> string \<Rightarrow> string list" where
  "pieces cur [] = [cur]"
| "pieces cur (c # cs) =
     (if c = CHR '' '' then cur # pieces [] cs else pieces (cur @ [c]) cs)"

definition tokens :: "string \<Rightarrow> string list" where
  "tokens line = filter (\<lambda>temp. temp \<noteq> [] \<and> temp \<noteq> '' '') (pieces [] line)"

text \<open>"initialize router structures": both tables get an empty entry for the identifier.\<close>

definition init_router :: "int \<Rightarrow> AnyNet \<Rightarrow> AnyNet" where
  "init_router r net =
     net\<lparr>router_list_NODE :=
           (if map_count r (router_list_NODE net) = 0
            then map_set r [] (router_list_NODE net) else router_list_NODE net),
         router_list_ROUTER :=
           (if map_count r (router_list_ROUTER net) = 0
            then map_set r [] (router_list_ROUTER net) else router_list_ROUTER net)\<rparr>"

text \<open>
  \<^verbatim>\<open>router_list[head_type][head_id][body_id].second = link_weight\<close>: the table is chosen by
  the type of the head of the line.  \<^verbatim>\<open>router_list\<close> has two elements, so the index
  \<^verbatim>\<open>UNKNOWN\<close> is outside it.
\<close>

definition set_weight :: "ParseType \<Rightarrow> int \<Rightarrow> int \<Rightarrow> int \<Rightarrow> AnyNet \<Rightarrow> fatal + AnyNet" where
  "set_weight t a b w net =
     (case t of
        NODE \<Rightarrow> Inr (net\<lparr>router_list_NODE := set_second a b w (router_list_NODE net)\<rparr>)
      | ROUTER \<Rightarrow> Inr (net\<lparr>router_list_ROUTER := set_second a b w (router_list_ROUTER net)\<rparr>)
      | UNKNOWN \<Rightarrow> Inl Index_out_of_bounds)"

text \<open>The cases \<^verbatim>\<open>BODY_TYPE\<close> and \<^verbatim>\<open>BODY_ID\<close> of the switch.\<close>

definition case_BODY_TYPE :: "string \<Rightarrow> line_vars \<times> AnyNet \<Rightarrow> fatal + line_vars \<times> AnyNet" where
  "case_BODY_TYPE temp s =
     (case s of (v, net) \<Rightarrow>
        if temp = ''router'' then Inr (v\<lparr>body_type := ROUTER, state := BODY_ID\<rparr>, net)
        else if temp = ''node'' then Inr (v\<lparr>body_type := NODE, state := BODY_ID\<rparr>, net)
        else Inl Assertion_failed)"

definition connect :: "line_vars \<Rightarrow> AnyNet \<Rightarrow> fatal + AnyNet" where
  "connect v net =
     (if head_type v = NODE \<and> body_type v = NODE then Inl Assertion_failed
      else if head_type v = NODE \<and> body_type v = ROUTER then
        (if map_count (head_id v) (node_list net) \<noteq> 0
            \<and> map_at 0 (node_list net) (head_id v) \<noteq> body_id v
         then Inl Assertion_failed
         else Inr (net\<lparr>node_list := map_set (head_id v) (body_id v) (node_list net),
                       router_list_NODE :=
                         set_link (body_id v) (head_id v) (- 1, 1) (router_list_NODE net)\<rparr>))
      else if head_type v = ROUTER \<and> body_type v = NODE then
        (if map_count (body_id v) (node_list net) \<noteq> 0
            \<and> map_at 0 (node_list net) (body_id v) \<noteq> head_id v
         then Inl Assertion_failed
         else Inr (net\<lparr>node_list := map_set (body_id v) (head_id v) (node_list net),
                       router_list_NODE :=
                         set_link (head_id v) (body_id v) (- 1, 1) (router_list_NODE net)\<rparr>))
      else if head_type v = ROUTER \<and> body_type v = ROUTER then
        (let t = set_link (head_id v) (body_id v) (- 1, 1) (router_list_ROUTER net)
         in Inr (net\<lparr>router_list_ROUTER :=
                       (if map_count (head_id v) (links_of t (body_id v)) = 0
                        then set_link (body_id v) (head_id v) (- 1, 1) t else t)\<rparr>))
      else Inr net)"

definition case_BODY_ID :: "string \<Rightarrow> line_vars \<times> AnyNet \<Rightarrow> fatal + line_vars \<times> AnyNet" where
  "case_BODY_ID temp s =
     (case s of (v, net) \<Rightarrow>
        (case atoi temp of
           None \<Rightarrow> Inl Undefined_behaviour
         | Some i \<Rightarrow>
             (let v' = v\<lparr>body_id := i\<rparr>;
                  net' = (if body_type v' = ROUTER then init_router i net else net)
              in case connect v' net' of
                   Inl e \<Rightarrow> Inl e
                 | Inr net'' \<Rightarrow> Inr (v'\<lparr>state := LINK_WEIGHT\<rparr>, net''))))"

text \<open>
  One pass through the body of the \<^verbatim>\<open>do ... while\<close> for the token \<open>temp\<close>.  In the state
  \<^verbatim>\<open>LINK_WEIGHT\<close> a token that is a type falls through to the case \<^verbatim>\<open>BODY_TYPE\<close>.
\<close>

definition parse_token :: "string \<Rightarrow> line_vars \<times> AnyNet \<Rightarrow> fatal + line_vars \<times> AnyNet" where
  "parse_token temp s =
     (case s of (v, net) \<Rightarrow>
        (case state v of
           HEAD_TYPE \<Rightarrow>
             if temp = ''router'' then Inr (v\<lparr>head_type := ROUTER, state := HEAD_ID\<rparr>, net)
             else if temp = ''node'' then Inr (v\<lparr>head_type := NODE, state := HEAD_ID\<rparr>, net)
             else Inl Assertion_failed
         | HEAD_ID \<Rightarrow>
             (case atoi temp of
                None \<Rightarrow> Inl Undefined_behaviour
              | Some i \<Rightarrow> Inr (v\<lparr>head_id := i, state := BODY_TYPE\<rparr>, init_router i net))
         | LINK_WEIGHT \<Rightarrow>
             if temp = ''router'' \<or> temp = ''node'' then case_BODY_TYPE temp s
             else
               (case atoi temp of
                  None \<Rightarrow> Inl Undefined_behaviour
                | Some w \<Rightarrow>
                    (case set_weight (head_type v) (head_id v) (body_id v) w net of
                       Inl e \<Rightarrow> Inl e
                     | Inr net' \<Rightarrow> Inr (v\<lparr>link_weight := w\<rparr>, net')))
         | BODY_TYPE \<Rightarrow> case_BODY_TYPE temp s
         | BODY_ID \<Rightarrow> case_BODY_ID temp s))"

fun parse_tokens :: "string list \<Rightarrow> line_vars \<times> AnyNet \<Rightarrow> fatal + line_vars \<times> AnyNet" where
  "parse_tokens [] s = Inr s"
| "parse_tokens (temp # ts) s =
     (case parse_token temp s of Inl e \<Rightarrow> Inl e | Inr s' \<Rightarrow> parse_tokens ts s')"

text \<open>
  A line: the empty line is skipped; an incomplete line only prints a message, and what
  it has entered so far stays.
\<close>

definition parse_line :: "string \<Rightarrow> AnyNet \<Rightarrow> fatal + AnyNet" where
  "parse_line line net =
     (if line = [] then Inr net
      else case parse_tokens (tokens line) (line_start, net) of
             Inl e \<Rightarrow> Inl e
           | Inr (v, net') \<Rightarrow> Inr net')"

fun parse_lines :: "string list \<Rightarrow> AnyNet \<Rightarrow> fatal + AnyNet" where
  "parse_lines [] net = Inr net"
| "parse_lines (line # ls) net =
     (case parse_line line net of Inl e \<Rightarrow> Inl e | Inr net' \<Rightarrow> parse_lines ls net')"

text \<open>
  \<^verbatim>\<open>readFile\<close> on the lines of the network file, with the two checks that follow the
  loop: the tables have the same size, and the nodes are numbered 0, 1, 2, ...
\<close>

definition readFile :: "string list \<Rightarrow> fatal + AnyNet" where
  "readFile file =
     (case parse_lines file AnyNet_empty of
        Inl e \<Rightarrow> Inl e
      | Inr net \<Rightarrow>
          if length (router_list_NODE net) \<noteq> length (router_list_ROUTER net)
          then Inl Assertion_failed
          else if map fst (node_list net) \<noteq> map int [0..<length (node_list net)]
          then Inl Assertion_failed
          else Inr net)"

definition size_of :: "AnyNet \<Rightarrow> nat" where
  "size_of net = length (router_list_ROUTER net)"

definition nodes_of :: "AnyNet \<Rightarrow> nat" where
  "nodes_of net = length (node_list net)"

subsection \<open>Output ports\<close>

text \<open>
  Arrays indexed by a router identifier: \<open>in_bounds\<close> is the condition under which the
  C++ index is inside the array, and \<open>at\<close> reads the element.
\<close>

definition in_bounds :: "int \<Rightarrow> 'a list \<Rightarrow> bool" where
  "in_bounds i xs = (0 \<le> i \<and> i < int (length xs))"

definition at :: "'a list \<Rightarrow> int \<Rightarrow> 'a" where
  "at xs i = xs ! nat i"

definition put :: "'a list \<Rightarrow> int \<Rightarrow> 'a \<Rightarrow> 'a list" where
  "put xs i x = xs[nat i := x]"

text \<open>
  The links of one router take the output ports \<open>p\<close>, \<open>p + 1\<close>, ... in the order of the
  map; the result is the renumbered map and the next free port.
\<close>

fun number_ports :: "int \<Rightarrow> (int \<times> int) imap \<Rightarrow> (int \<times> int) imap \<times> int" where
  "number_ports p [] = ([], p)"
| "number_ports p ((k, link) # m) =
     (case number_ports (p + 1) m of (m', p') \<Rightarrow> ((k, (p, snd link)) # m', p'))"

text \<open>
  The two loops of \<^verbatim>\<open>_BuildNet\<close> over \<^verbatim>\<open>router_list[0]\<close>, the first numbering the links to
  nodes and the second the links to routers; \<open>rs\<close> are the routers still to visit.  The
  array \<^verbatim>\<open>outport\<close> has \<^verbatim>\<open>_size\<close> elements; \<^verbatim>\<open>router_list[1].find\<close> of a router that has no
  entry returns the end iterator, whose use is undefined.  The routers and channels
  themselves belong to the router model and are not part of this one.
\<close>

fun number_node_links ::
  "int list \<Rightarrow> links \<times> links \<times> int list \<Rightarrow> fatal + links \<times> links \<times> int list" where
  "number_node_links [] s = Inr s"
| "number_node_links (r # rs) s =
     (case s of (t0, t1, outport) \<Rightarrow>
        if map_count r t1 = 0 then Inl Undefined_behaviour
        else if links_of t0 r = [] then number_node_links rs s
        else if \<not> in_bounds r outport then Inl Index_out_of_bounds
        else
          (case number_ports (at outport r) (links_of t0 r) of
             (m, p) \<Rightarrow> number_node_links rs (map_set r m t0, t1, put outport r p)))"

fun number_router_links ::
  "int list \<Rightarrow> links \<times> links \<times> int list \<Rightarrow> fatal + links \<times> links \<times> int list" where
  "number_router_links [] s = Inr s"
| "number_router_links (r # rs) s =
     (case s of (t0, t1, outport) \<Rightarrow>
        if map_count r t1 = 0 then Inl Undefined_behaviour
        else if links_of t1 r = [] then number_router_links rs s
        else if \<not> in_bounds r outport then Inl Index_out_of_bounds
        else
          (case number_ports (at outport r) (links_of t1 r) of
             (m, p) \<Rightarrow> number_router_links rs (t0, map_set r m t1, put outport r p)))"

definition assign_ports :: "AnyNet \<Rightarrow> fatal + AnyNet" where
  "assign_ports net =
     (let rs = map fst (router_list_NODE net);
          outport = replicate (size_of net) 0
      in case number_node_links rs (router_list_NODE net, router_list_ROUTER net, outport) of
           Inl e \<Rightarrow> Inl e
         | Inr s \<Rightarrow>
             (case number_router_links rs s of
                Inl e \<Rightarrow> Inl e
              | Inr (t0, t1, outport') \<Rightarrow>
                  Inr (net\<lparr>router_list_NODE := t0, router_list_ROUTER := t1\<rparr>)))"

subsection \<open>The routing table\<close>

text \<open>
  \<^verbatim>\<open>route(r_start)\<close>, first part: the search for the candidate of minimum distance among
  the routers of \<^verbatim>\<open>rlist\<close>, in increasing order (\<^verbatim>\<open>rlist\<close> is a \<^verbatim>\<open>std::set\<close>).
\<close>

fun find_min :: "int list \<Rightarrow> int list \<Rightarrow> int \<times> int \<Rightarrow> int \<times> int" where
  "find_min dist [] best = best"
| "find_min dist (i # rlist) best =
     (if at dist i < fst best then find_min dist rlist (at dist i, i)
      else find_min dist rlist best)"

text \<open>
  The loop over the neighbours of \<open>min_cand\<close>.  An index outside \<^verbatim>\<open>dist\<close> and an \<^verbatim>\<open>int\<close>
  sum outside the range of \<^verbatim>\<open>int\<close> are undefined behaviour.
\<close>

fun relax ::
  "int \<Rightarrow> (int \<times> int) imap \<Rightarrow> int list \<times> int list \<Rightarrow> fatal + int list \<times> int list" where
  "relax min_cand [] s = Inr s"
| "relax min_cand ((i, link) # neighbours) s =
     (case s of (dist, prev) \<Rightarrow>
        if \<not> in_bounds min_cand dist then Inl Index_out_of_bounds
        else
          (let new_dist = at dist min_cand + snd link in
           if new_dist < INT_MIN \<or> INT_MAX < new_dist then Inl Undefined_behaviour
           else if \<not> in_bounds i dist then Inl Index_out_of_bounds
           else if new_dist < at dist i
             then relax min_cand neighbours (put dist i new_dist, put prev i min_cand)
             else relax min_cand neighbours s))"

text \<open>
  The \<^verbatim>\<open>while (!rlist.empty())\<close> loop.  When no router of \<^verbatim>\<open>rlist\<close> has a distance below
  \<^verbatim>\<open>INT_MAX\<close>, \<open>min_cand\<close> stays \<open>- 1\<close>, \<^verbatim>\<open>rlist.erase(-1)\<close> removes nothing and the loop
  runs again on the same state: the loop is a partial function.
\<close>

partial_function (option) route_loop ::
  "links \<Rightarrow> int list \<Rightarrow> int list \<times> int list \<Rightarrow> (fatal + int list \<times> int list) option" where
  "route_loop t1 rlist s =
     (if rlist = [] then Some (Inr s)
      else
        (let min_cand = snd (find_min (fst s) rlist (INT_MAX, - 1)) in
         case relax min_cand (links_of t1 min_cand) s of
           Inl e \<Rightarrow> Some (Inl e)
         | Inr s' \<Rightarrow> route_loop t1 (removeAll min_cand rlist) s'))"

declare route_loop.simps [code]

text \<open>
  The walk back from router \<open>i\<close> along \<^verbatim>\<open>prev\<close> to the neighbour of \<open>r_start\<close>; it returns
  that neighbour and the distance it has summed up (which \<^verbatim>\<open>route\<close> does not use).
\<close>

partial_function (option) walk_back ::
  "links \<Rightarrow> int list \<Rightarrow> int \<Rightarrow> int \<Rightarrow> int \<Rightarrow> (fatal + int \<times> int) option" where
  "walk_back t1 prev r_start neighbor distance =
     (if \<not> in_bounds neighbor prev then Some (Inl Index_out_of_bounds)
      else if at prev neighbor \<noteq> r_start then
        (if \<not> map_count (at prev neighbor) (links_of t1 neighbor) > 0
         then Some (Inl Assertion_failed)
         else walk_back t1 prev r_start (at prev neighbor)
                (distance + snd (map_at (0, 0) (links_of t1 (at prev neighbor)) neighbor)))
      else Some (Inr (neighbor,
                      distance + snd (map_at (0, 0) (links_of t1 (at prev neighbor)) neighbor))))"

declare walk_back.simps [code]

text \<open>\<^verbatim>\<open>routing_table[r_start][node] = port\<close> for every node attached to a router.\<close>

fun set_nodes :: "int \<Rightarrow> (int \<times> int) imap \<Rightarrow> int imap \<Rightarrow> int imap" where
  "set_nodes port [] table = table"
| "set_nodes port ((node, link) # nodes) table = set_nodes port nodes (map_set node port table)"

fun set_own_nodes :: "(int \<times> int) imap \<Rightarrow> int imap \<Rightarrow> int imap" where
  "set_own_nodes [] table = table"
| "set_own_nodes ((node, link) # nodes) table =
     set_own_nodes nodes (map_set node (fst link) table)"

text \<open>The loop "post process from the prev list", for the routers \<open>is\<close> still to visit.\<close>

fun post_process ::
  "AnyNet \<Rightarrow> int list \<Rightarrow> int \<Rightarrow> int list \<Rightarrow> int imap \<Rightarrow> (fatal + int imap) option" where
  "post_process net prev r_start [] table = Some (Inr table)"
| "post_process net prev r_start (i # is) table =
     (if at prev i = - 1 then
        (if i \<noteq> r_start then Some (Inl Assertion_failed)
         else post_process net prev r_start is
                (set_own_nodes (links_of (router_list_NODE net) i) table))
      else
        (case walk_back (router_list_ROUTER net) prev r_start i 0 of
           None \<Rightarrow> None
         | Some (Inl e) \<Rightarrow> Some (Inl e)
         | Some (Inr (neighbor, distance)) \<Rightarrow>
             if \<not> map_count neighbor (links_of (router_list_ROUTER net) r_start) \<noteq> 0
             then Some (Inl Assertion_failed)
             else post_process net prev r_start is
                    (set_nodes
                       (fst (map_at (0, 0) (links_of (router_list_ROUTER net) r_start) neighbor))
                       (links_of (router_list_NODE net) i) table)))"

text \<open>
  \<^verbatim>\<open>route(r_start)\<close>, in two parts, with \<open>routers\<close> for the identifiers 0, ..., \<^verbatim>\<open>_size - 1\<close>
  that its loops run over.  \<open>dijkstra\<close> is the part up to the end of the \<^verbatim>\<open>while\<close>
  loop and returns the arrays \<^verbatim>\<open>dist\<close> and \<^verbatim>\<open>prev\<close> of the search from \<open>r_start\<close>; \<open>route\<close>
  goes on with the loop over \<^verbatim>\<open>prev\<close> and returns the new value of
  \<^verbatim>\<open>routing_table[r_start]\<close>.
\<close>

definition routers :: "AnyNet \<Rightarrow> int list" where
  "routers net = map int [0..<size_of net]"

definition dijkstra :: "AnyNet \<Rightarrow> int \<Rightarrow> (fatal + int list \<times> int list) option" where
  "dijkstra net r_start =
     (let dist = put (replicate (size_of net) INT_MAX) r_start 0;
          prev = replicate (size_of net) (- 1)
      in route_loop (router_list_ROUTER net) (routers net) (dist, prev))"

definition route :: "AnyNet \<Rightarrow> int \<Rightarrow> (fatal + int imap) option" where
  "route net r_start =
     (case dijkstra net r_start of
        None \<Rightarrow> None
      | Some (Inl e) \<Rightarrow> Some (Inl e)
      | Some (Inr (dist', prev')) \<Rightarrow>
          post_process net prev' r_start (routers net) (at (routing_table net) r_start))"

fun route_all :: "int list \<Rightarrow> AnyNet \<Rightarrow> (fatal + AnyNet) option" where
  "route_all [] net = Some (Inr net)"
| "route_all (i # is) net =
     (case route net i of
        None \<Rightarrow> None
      | Some (Inl e) \<Rightarrow> Some (Inl e)
      | Some (Inr table) \<Rightarrow>
          route_all is (net\<lparr>routing_table := put (routing_table net) i table\<rparr>))"

definition buildRoutingTable :: "AnyNet \<Rightarrow> (fatal + AnyNet) option" where
  "buildRoutingTable net =
     route_all (routers net) (net\<lparr>routing_table := replicate (size_of net) []\<rparr>)"

text \<open>
  The constructor, as far as the topology goes: \<^verbatim>\<open>_ComputeSize\<close> reads the file,
  \<^verbatim>\<open>_BuildNet\<close> numbers the ports and builds the routing table.
\<close>

definition BuildNet :: "AnyNet \<Rightarrow> (fatal + AnyNet) option" where
  "BuildNet net =
     (case assign_ports net of Inl e \<Rightarrow> Some (Inl e) | Inr net' \<Rightarrow> buildRoutingTable net')"

definition AnyNet_new :: "string list \<Rightarrow> (fatal + AnyNet) option" where
  "AnyNet_new file =
     (case readFile file of Inl e \<Rightarrow> Some (Inl e) | Inr net \<Rightarrow> BuildNet net)"


subsection \<open>Example network files\<close>

text \<open>
  Router 0 is connected to router 1 with a 3-cycle channel, and the second line attaches
  node 0 to router 1 with latency 5.  No line declares the channel from router 1 back to
  router 0.
\<close>

definition return_latency_file :: "string list" where
  "return_latency_file = [''router 0 router 1 3'', ''router 1 node 0 5'']"

text \<open>"example 2" of the comment at the head of \<^verbatim>\<open>anynet.cpp\<close>.\<close>

definition documented_example_file :: "string list" where
  "documented_example_file = [''router 0 node 0 node 1 5 node 2 5'']"

subsection \<open>Shortest paths\<close>

text \<open>
  \<open>dijkstra_distance net r x k\<close>: the search from \<open>r\<close> returns and leaves \<open>k\<close> in \<^verbatim>\<open>dist[x]\<close>.
\<close>

definition dijkstra_distance :: "AnyNet \<Rightarrow> int \<Rightarrow> int \<Rightarrow> int \<Rightarrow> bool" where
  "dijkstra_distance net r x k =
     (\<exists>dist prev. dijkstra net r = Some (Inr (dist, prev)) \<and> at dist x = k)"

text \<open>
  The total latency of a walk through the routers of a list, each step along a link of the
  table; a list that is empty or leaves the links has none.  \<open>least_latency t r x k\<close>: no
  walk from \<open>r\<close> to \<open>x\<close> has a total latency below \<open>k\<close>.
\<close>

fun walk_lat :: "links \<Rightarrow> int list \<Rightarrow> int option" where
  "walk_lat t [] = None"
| "walk_lat t [u] = Some 0"
| "walk_lat t (u # v # p) =
     (if map_count v (links_of t u) = 0 then None
      else case walk_lat t (v # p) of
             None \<Rightarrow> None
           | Some k \<Rightarrow> Some (snd (map_at (0, 0) (links_of t u) v) + k))"

definition least_latency :: "links \<Rightarrow> int \<Rightarrow> int \<Rightarrow> int \<Rightarrow> bool" where
  "least_latency t r x k =
     (\<forall>q k'. walk_lat t (r # q) = Some k' \<and> last (r # q) = x \<longrightarrow> k \<le> k')"

subsection \<open>The way of a flit\<close>




subsection \<open>Connected networks\<close>

text \<open>
  The routers reached from \<open>vs\<close> in at most \<open>k\<close> steps along the links, and the networks
  that the routing table is built for: the routers are numbered 0, 1, ... in both tables;
  a router link leads to a router of the network, has a latency of at least one cycle
  whose multiples up to the number of routers stay below \<^verbatim>\<open>INT_MAX\<close>, and has a link back;
  the node links of a router are those of the nodes that \<^verbatim>\<open>node_list\<close> attaches to it; and
  every router is reached from every router.
\<close>

fun reachable :: "links \<Rightarrow> nat \<Rightarrow> int list \<Rightarrow> int list" where
  "reachable t 0 vs = vs"
| "reachable t (Suc k) vs =
     reachable t k (remdups (vs @ concat (map (\<lambda>u. map fst (links_of t u)) vs)))"

definition link_ok :: "AnyNet \<Rightarrow> int \<Rightarrow> int \<times> int \<times> int \<Rightarrow> bool" where
  "link_ok net u e =
     (0 \<le> fst e \<and> fst e < int (size_of net) \<and> 1 \<le> snd (snd e)
      \<and> int (size_of net) * snd (snd e) < INT_MAX
      \<and> 0 < map_count u (links_of (router_list_ROUTER net) (fst e)))"

definition well_formed :: "AnyNet \<Rightarrow> bool" where
  "well_formed net =
     (map fst (router_list_NODE net) = routers net
      \<and> map fst (router_list_ROUTER net) = routers net
      \<and> int (size_of net) < INT_MAX
      \<and> list_all (\<lambda>(u, m). distinct (map fst m) \<and> list_all (link_ok net u) m)
           (router_list_ROUTER net)
      \<and> list_all (\<lambda>(u, m). distinct (map fst m)
                     \<and> list_all (\<lambda>e. map_of (node_list net) (fst e) = Some u) m)
           (router_list_NODE net)
      \<and> list_all (\<lambda>(d, x). 0 < map_count d (links_of (router_list_NODE net) x))
           (node_list net)
      \<and> list_all (\<lambda>r. list_all (\<lambda>v. v \<in> set (reachable (router_list_ROUTER net)
                                                (size_of net) [r])) (routers net))
           (routers net))"


definition line_net :: AnyNet where
  "line_net =
     \<lparr>router_list_NODE = [(0, [(0, (- 1, 1))]), (1, [(1, (- 1, 1))]), (2, [(2, (- 1, 1))])],
      router_list_ROUTER = [(0, [(1, (- 1, 5))]), (1, [(0, (- 1, 1)), (2, (- 1, 3))]),
                            (2, [(1, (- 1, 1))])],
      node_list = [(0, 0), (1, 1), (2, 2)],
      routing_table = []\<rparr>"



subsection \<open>Invariant of the search\<close>

text \<open>
  The edges of a table, and the tables the search is defined on: every link leads to one
  of the \<open>n\<close> routers, has a latency between 1 and \<open>W\<close> and a link back, and \<open>n * W\<close> is
  below \<^verbatim>\<open>INT_MAX\<close>, so that no sum of the search overflows.
\<close>

definition edge_rel :: "links \<Rightarrow> (int \<times> int) set" where
  "edge_rel t = {(u, v). v \<in> fst ` set (links_of t u)}"

definition graph_ok :: "links \<Rightarrow> nat \<Rightarrow> int \<Rightarrow> bool" where
  "graph_ok t n W =
     ((\<forall>u e. e \<in> set (links_of t u) \<longrightarrow>
          0 \<le> fst e \<and> fst e < int n \<and> 1 \<le> snd (snd e) \<and> snd (snd e) \<le> W
          \<and> map_count u (links_of t (fst e)) > 0)
      \<and> (\<forall>u. distinct (map fst (links_of t u)))
      \<and> int n * W < INT_MAX \<and> 1 \<le> W)"

text \<open>
  The invariant of the \<^verbatim>\<open>while\<close> loop of \<^verbatim>\<open>route\<close>, clause by clause, for the routers
  \<open>rlist\<close> still to visit and the state \<open>s = (dist, prev)\<close>: the shape of the state; the
  start \<open>r\<close>; the bound on the distances found so far; \<^verbatim>\<open>prev\<close> is a tree of links towards
  \<open>r\<close> along which \<^verbatim>\<open>dist\<close> adds up; and the links of the routers visited are relaxed, none
  of these routers being farther than one still to visit.
\<close>

definition inv_shape :: "nat \<Rightarrow> int list \<Rightarrow> int list \<times> int list \<Rightarrow> bool" where
  "inv_shape n rlist s =
     (length (fst s) = n \<and> length (snd s) = n \<and> distinct rlist
      \<and> (\<forall>v \<in> set rlist. 0 \<le> v \<and> v < int n))"

definition inv_start :: "nat \<Rightarrow> int \<Rightarrow> int list \<Rightarrow> int list \<times> int list \<Rightarrow> bool" where
  "inv_start n r rlist s =
     (at (fst s) r = 0 \<and> at (snd s) r = - 1
      \<and> (r \<in> set rlist \<longrightarrow> (\<forall>v. 0 \<le> v \<and> v < int n \<longrightarrow> v \<in> set rlist)))"

definition inv_bound :: "nat \<Rightarrow> int \<Rightarrow> int list \<Rightarrow> int list \<times> int list \<Rightarrow> bool" where
  "inv_bound n W rlist s =
     (\<forall>v. 0 \<le> v \<and> v < int n \<longrightarrow>
        (at (fst s) v = INT_MAX
         \<or> (0 \<le> at (fst s) v \<and> at (fst s) v \<le> (int n - int (length rlist)) * W))
        \<and> (v \<notin> set rlist \<longrightarrow> at (fst s) v < INT_MAX))"

definition inv_tree ::
  "links \<Rightarrow> nat \<Rightarrow> int \<Rightarrow> int list \<Rightarrow> int list \<times> int list \<Rightarrow> bool" where
  "inv_tree t n r rlist s =
     (\<forall>v. 0 \<le> v \<and> v < int n \<and> v \<noteq> r \<and> at (fst s) v < INT_MAX \<longrightarrow>
        0 \<le> at (snd s) v \<and> at (snd s) v < int n \<and> at (snd s) v \<notin> set rlist
        \<and> (\<exists>x. (v, x) \<in> set (links_of t (at (snd s) v))
                 \<and> at (fst s) v = at (fst s) (at (snd s) v) + snd x))"

definition inv_relaxed :: "links \<Rightarrow> nat \<Rightarrow> int list \<Rightarrow> int list \<times> int list \<Rightarrow> bool" where
  "inv_relaxed t n rlist s =
     (\<forall>u. 0 \<le> u \<and> u < int n \<and> u \<notin> set rlist \<longrightarrow>
        (\<forall>e \<in> set (links_of t u). at (fst s) (fst e) \<le> at (fst s) u + snd (snd e))
        \<and> (\<forall>v \<in> set rlist. at (fst s) u \<le> at (fst s) v))"

definition dijkstra_inv ::
  "links \<Rightarrow> nat \<Rightarrow> int \<Rightarrow> int \<Rightarrow> int list \<Rightarrow> int list \<times> int list \<Rightarrow> bool" where
  "dijkstra_inv t n W r rlist s =
     (inv_shape n rlist s \<and> inv_start n r rlist s \<and> inv_bound n W rlist s
      \<and> inv_tree t n r rlist s \<and> inv_relaxed t n rlist s)"

subsection \<open>Tables and ports\<close>

text \<open>
  The conditions on the node links, and with them the networks on which
  \<^verbatim>\<open>buildRoutingTable\<close> is studied.  \<open>route_entry net r d x e k\<close> describes the entry \<open>e\<close> of
  the table of \<open>r\<close> for a node \<open>d\<close> attached to router \<open>x\<close>: the ejection port of \<open>d\<close> when
  \<open>x\<close> is \<open>r\<close>, and otherwise the port of a link of \<open>r\<close> that starts a walk to \<open>x\<close> of total
  latency \<open>k\<close>.  \<open>table_ok\<close> says so of every node, \<open>k\<close> being the distance that the search
  finds and that no walk undercuts.
\<close>

definition nodes_ok :: "AnyNet \<Rightarrow> bool" where
  "nodes_ok net =
     ((\<forall>i. distinct (map fst (links_of (router_list_NODE net) i)))
      \<and> (\<forall>i e. e \<in> set (links_of (router_list_NODE net) i) \<longrightarrow>
             map_of (node_list net) (fst e) = Some i)
      \<and> (\<forall>d x. map_of (node_list net) d = Some x \<longrightarrow>
             0 \<le> x \<and> x < int (size_of net)
             \<and> 0 < map_count d (links_of (router_list_NODE net) x)))"

definition topo_ok :: "AnyNet \<Rightarrow> int \<Rightarrow> bool" where
  "topo_ok net W =
     (graph_ok (router_list_ROUTER net) (size_of net) W
      \<and> (\<forall>r v. 0 \<le> r \<and> r < int (size_of net) \<and> 0 \<le> v \<and> v < int (size_of net) \<longrightarrow>
             (r, v) \<in> (edge_rel (router_list_ROUTER net))\<^sup>*)
      \<and> nodes_ok net)"

definition route_entry :: "AnyNet \<Rightarrow> int \<Rightarrow> int \<Rightarrow> int \<Rightarrow> int option \<Rightarrow> int \<Rightarrow> bool" where
  "route_entry net r d x e k =
     (if x = r
      then e = Some (fst (map_at (0, 0) (links_of (router_list_NODE net) r) d)) \<and> k = 0
      else (\<exists>h p. e = Some (fst (map_at (0, 0) (links_of (router_list_ROUTER net) r) h))
              \<and> 0 < map_count h (links_of (router_list_ROUTER net) r)
              \<and> walk_lat (router_list_ROUTER net) (r # h # p) = Some k
              \<and> last (h # p) = x))"

definition table_ok :: "AnyNet \<Rightarrow> int \<Rightarrow> int imap \<Rightarrow> bool" where
  "table_ok net r table =
     (\<exists>dist prev. dijkstra net r = Some (Inr (dist, prev))
        \<and> (\<forall>d x. map_of (node_list net) d = Some x \<longrightarrow>
               route_entry net r d x (map_of table d) (at dist x)
               \<and> least_latency (router_list_ROUTER net) r x (at dist x)))"


definition ports :: "(int \<times> int) imap \<Rightarrow> int list" where
  "ports m = map (\<lambda>e. fst (snd e)) m"

definition ports_ok :: "AnyNet \<Rightarrow> bool" where
  "ports_ok net =
     (\<forall>r. distinct (ports (links_of (router_list_NODE net) r)
                      @ ports (links_of (router_list_ROUTER net) r)))"
section \<open>Properties of memory fetches\<close>

lemma set_reply_wrbk:
  "get_access_type mf = L1_WRBK_ACC \<or> get_access_type mf = L2_WRBK_ACC
   \<Longrightarrow> set_reply mf = Inl Assertion_failed"
  by (auto simp: set_reply_def)

lemma set_reply_on_reply:
  "get_access_type mf \<noteq> L1_WRBK_ACC \<Longrightarrow> get_access_type mf \<noteq> L2_WRBK_ACC
   \<Longrightarrow> is_reply mf \<Longrightarrow> set_reply mf = Inr mf"
  by (auto simp: set_reply_def is_reply_def)

lemma set_reply_result_is_reply:
  "set_reply mf = Inr mf' \<Longrightarrow> m_type mf \<noteq> READ_REPLY \<Longrightarrow> m_type mf \<noteq> WRITE_ACK
   \<Longrightarrow> is_reply mf'"
  by (cases "m_type mf") (auto simp: set_reply_def is_reply_def split: if_splits)

lemma set_reply_keeps_access:
  "set_reply mf = Inr mf' \<Longrightarrow> m_access mf' = m_access mf"
  by (auto simp: set_reply_def split: if_splits)

text \<open>
  C9: \<^verbatim>\<open>is_reply()\<close> is true exactly for the fetches of type READ\_REPLY or WRITE\_ACK:
  of the four values of the type it accepts these two and rejects the two request types.
\<close>

theorem C9_is_reply_iff:
  "is_reply mf = (m_type mf \<in> {READ_REPLY, WRITE_ACK})
   \<and> is_reply mf = (m_type mf \<noteq> READ_REQUEST \<and> m_type mf \<noteq> WRITE_REQUEST)"
  by (cases "m_type mf") (simp_all add: is_reply_def)

text \<open>
  C3, as stated, fails: the claim names the write-back assertion as the only fatal case,
  but \<^verbatim>\<open>set_reply\<close> also asserts that a READ\_REQUEST is not a write and that a
  WRITE\_REQUEST is one.  A read request whose access descriptor carries the write flag is
  not a write-back, and \<^verbatim>\<open>set_reply\<close> stops on it.
\<close>

theorem C3_counterexample:
  "get_access_type inconsistent_fetch \<noteq> L1_WRBK_ACC
   \<and> get_access_type inconsistent_fetch \<noteq> L2_WRBK_ACC
   \<and> m_type inconsistent_fetch = READ_REQUEST
   \<and> set_reply inconsistent_fetch = Inl Assertion_failed"
  by (simp add: inconsistent_fetch_def example_fetch_def set_reply_def get_access_type_def
      get_is_write_def)

text \<open>
  C3 (amended): on a write-back access \<^verbatim>\<open>set_reply\<close> is fatal.  On any other access it
  turns a READ\_REQUEST that is not a write into a READ\_REPLY and a WRITE\_REQUEST that is
  a write into a WRITE\_ACK, changing no other field; it is fatal when the request type
  disagrees with the write flag of the access.
\<close>

theorem C3_set_reply:
  "(get_access_type mf = L1_WRBK_ACC \<or> get_access_type mf = L2_WRBK_ACC
      \<longrightarrow> set_reply mf = Inl Assertion_failed)
   \<and> (get_access_type mf \<noteq> L1_WRBK_ACC \<and> get_access_type mf \<noteq> L2_WRBK_ACC \<longrightarrow>
        (m_type mf = READ_REQUEST \<and> \<not> get_is_write mf
           \<longrightarrow> set_reply mf = Inr (mf\<lparr>m_type := READ_REPLY\<rparr>))
      \<and> (m_type mf = WRITE_REQUEST \<and> get_is_write mf
           \<longrightarrow> set_reply mf = Inr (mf\<lparr>m_type := WRITE_ACK\<rparr>))
      \<and> (m_type mf = READ_REQUEST \<and> get_is_write mf
           \<longrightarrow> set_reply mf = Inl Assertion_failed)
      \<and> (m_type mf = WRITE_REQUEST \<and> \<not> get_is_write mf
           \<longrightarrow> set_reply mf = Inl Assertion_failed))"
  by (auto simp: set_reply_def)

theorem C3_witness:
  "set_reply example_fetch = Inr (example_fetch\<lparr>m_type := READ_REPLY\<rparr>)
   \<and> set_reply wrbk_reply_fetch = Inl Assertion_failed"
proof -
  have a: "get_access_type example_fetch \<noteq> L1_WRBK_ACC
           \<and> get_access_type example_fetch \<noteq> L2_WRBK_ACC"
    and c: "m_type example_fetch = READ_REQUEST \<and> \<not> get_is_write example_fetch"
    and d: "get_access_type wrbk_reply_fetch = L1_WRBK_ACC"
    by (simp_all add: example_fetch_def wrbk_reply_fetch_def get_access_type_def
        get_is_write_def)
  from C3_set_reply [of example_fetch] a c
  have "set_reply example_fetch = Inr (example_fetch\<lparr>m_type := READ_REPLY\<rparr>)" by blast
  moreover from C3_set_reply [of wrbk_reply_fetch] d
  have "set_reply wrbk_reply_fetch = Inl Assertion_failed" by blast
  ultimately show ?thesis ..
qed

text \<open>
  C7, as stated, fails: the write-back assertion comes first in \<^verbatim>\<open>set_reply\<close>, so on a
  fetch that is a reply already and whose access is a write-back the call is fatal, not a
  no-op.
\<close>

theorem C7_counterexample:
  "is_reply wrbk_reply_fetch \<and> set_reply wrbk_reply_fetch \<noteq> Inr wrbk_reply_fetch"
  by (simp add: wrbk_reply_fetch_def example_fetch_def set_reply_def get_access_type_def
      is_reply_def)

text \<open>
  C7 (amended): on a fetch that is a reply already and whose access is not a write-back,
  \<^verbatim>\<open>set_reply\<close> returns the fetch unchanged; and for every fetch whose access is not a
  write-back, two calls in a row end as one call does (also when that call is fatal).
\<close>

theorem C7_set_reply_idempotent:
  assumes "get_access_type mf \<noteq> L1_WRBK_ACC" and "get_access_type mf \<noteq> L2_WRBK_ACC"
  shows "(is_reply mf \<longrightarrow> set_reply mf = Inr mf) \<and> set_reply_twice mf = set_reply mf"
proof
  show "is_reply mf \<longrightarrow> set_reply mf = Inr mf"
    using assms by (simp add: set_reply_on_reply)
next
  show "set_reply_twice mf = set_reply mf"
  proof (cases "set_reply mf")
    case (Inl e)
    then show ?thesis by (simp add: set_reply_twice_def)
  next
    case (Inr mf')
    have acc: "m_access mf' = m_access mf" using Inr by (rule set_reply_keeps_access)
    have "is_reply mf'"
    proof (cases "is_reply mf")
      case True
      with assms Inr show ?thesis by (simp add: set_reply_on_reply)
    next
      case False
      then have "m_type mf \<noteq> READ_REPLY" "m_type mf \<noteq> WRITE_ACK"
        by (simp_all add: is_reply_def)
      with Inr show ?thesis by (rule set_reply_result_is_reply)
    qed
    moreover have "get_access_type mf' \<noteq> L1_WRBK_ACC" "get_access_type mf' \<noteq> L2_WRBK_ACC"
      using assms acc by (simp_all add: get_access_type_def)
    ultimately have "set_reply mf' = Inr mf'" by (simp add: set_reply_on_reply)
    with Inr show ?thesis by (simp add: set_reply_twice_def)
  qed
qed

theorem C7_witness:
  "set_reply reply_fetch = Inr reply_fetch \<and> set_reply_twice reply_fetch = set_reply reply_fetch
   \<and> set_reply_twice example_fetch = Inr reply_fetch"
proof -
  have a: "get_access_type reply_fetch \<noteq> L1_WRBK_ACC"
    and b: "get_access_type reply_fetch \<noteq> L2_WRBK_ACC"
    and c: "is_reply reply_fetch"
    and a': "get_access_type example_fetch \<noteq> L1_WRBK_ACC"
    and b': "get_access_type example_fetch \<noteq> L2_WRBK_ACC"
    by (simp_all add: reply_fetch_def example_fetch_def get_access_type_def is_reply_def)
  have d: "set_reply example_fetch = Inr reply_fetch"
    by (simp add: reply_fetch_def example_fetch_def set_reply_def get_access_type_def
        get_is_write_def)
  from C7_set_reply_idempotent [OF a b] C7_set_reply_idempotent [OF a' b'] c d
  show ?thesis by simp
qed

section \<open>Properties of the operand collector\<close>

subsection \<open>Arbiter\<close>

lemma reset_banks_length:
  "length (foldl (\<lambda>banks b. banks[b := allocation_reset (banks ! b)]) bs [0..<n]) = length bs"
  by (induction n) simp_all

lemma reset_banks_nth:
  "b < length bs \<Longrightarrow>
   foldl (\<lambda>banks b. banks[b := allocation_reset (banks ! b)]) bs [0..<n] ! b
     = (if b < n then allocation_reset (bs ! b) else bs ! b)"
proof (induction n)
  case 0
  then show ?case by simp
next
  case (Suc n)
  then show ?case
    by (cases "b = n") (simp_all add: reset_banks_length)
qed

lemma reset_alloction_free:
  "b < m_num_banks arb \<Longrightarrow> b < length (m_allocated_bank arb)
   \<Longrightarrow> is_free (m_allocated_bank (reset_alloction arb) ! b)"
proof -
  assume "b < m_num_banks arb" "b < length (m_allocated_bank arb)"
  then have "m_allocated_bank (reset_alloction arb) ! b
               = allocation_reset (m_allocated_bank arb ! b)"
    by (simp add: reset_alloction_def reset_banks_nth)
  then show ?thesis by (simp add: allocation_reset_def is_free_def)
qed

lemma reset_alloction_fields [simp]:
  "m_num_banks (reset_alloction arb) = m_num_banks arb"
  "length (m_allocated_bank (reset_alloction arb)) = length (m_allocated_bank arb)"
  by (simp_all add: reset_alloction_def reset_banks_length)

lemma reset_alloction_all_free:
  "list_all is_free (take (m_num_banks arb) (m_allocated_bank (reset_alloction arb)))"
proof -
  have "\<forall>b < length (take (m_num_banks arb) (m_allocated_bank (reset_alloction arb))).
          is_free (take (m_num_banks arb) (m_allocated_bank (reset_alloction arb)) ! b)"
    by (auto intro: reset_alloction_free)
  then show ?thesis by (simp add: list_all_length)
qed

lemma arbiter_init_allocated:
  "arbiter_init num_cu num_banks = Inr arb \<Longrightarrow> banks_allocated arb"
  by (auto simp: arbiter_init_def banks_allocated_def split: if_splits)

lemma run_call_allocated:
  "run_call c arb = Inr arb' \<Longrightarrow> banks_allocated arb \<Longrightarrow> banks_allocated arb'"
  by (cases c)
     (auto simp: banks_allocated_def allocate_for_read_def allocate_bank_for_write_def
       split: if_splits sum.splits)

lemma run_calls_allocated:
  "run_calls cs arb = Inr arb' \<Longrightarrow> banks_allocated arb \<Longrightarrow> banks_allocated arb'"
  by (induction cs arbitrary: arb) (auto split: sum.splits dest: run_call_allocated)

lemma run_calls_append:
  "run_calls (cs @ ds) arb =
     (case run_calls cs arb of Inl e \<Rightarrow> Inl e | Inr arb' \<Rightarrow> run_calls ds arb')"
  by (induction cs arbitrary: arb) (auto split: sum.splits)

lemma busy_bank_refuses:
  "busy arb b \<Longrightarrow> allocate_for_read b op arb = Inl Assertion_failed"
  "busy arb b \<Longrightarrow> allocate_bank_for_write b op arb = Inl Assertion_failed"
  by (simp_all add: busy_def allocate_for_read_def allocate_bank_for_write_def alloc_read_def
      alloc_write_def)

lemma run_call_busy:
  assumes "run_call c arb = Inr arb'" and "banks_allocated arb" and "c \<noteq> Reset_alloction"
  shows "busy arb' b = (busy arb b \<or> allocates b c)" and "allocates b c \<Longrightarrow> \<not> busy arb b"
  using assms
  by (cases c;
      auto simp: busy_def banks_allocated_def allocate_for_read_def allocate_bank_for_write_def
        alloc_read_def alloc_write_def is_free_def nth_list_update split: if_splits)+

lemma allocations_bounded:
  assumes "run_calls cs arb = Inr arb'" and "banks_allocated arb"
    and "Reset_alloction \<notin> set cs"
  shows "allocations_of b cs + (if busy arb b then 1 else 0) \<le> 1"
  using assms
proof (induction cs arbitrary: arb)
  case Nil
  then show ?case by (simp add: allocations_of_def)
next
  case (Cons c cs)
  from Cons.prems(1) obtain arb1 where c: "run_call c arb = Inr arb1"
    and cs: "run_calls cs arb1 = Inr arb'"
    by (auto split: sum.splits)
  from Cons.prems(3) have nr: "c \<noteq> Reset_alloction" "Reset_alloction \<notin> set cs" by auto
  have al: "banks_allocated arb1" using c Cons.prems(2) by (rule run_call_allocated)
  have ih: "allocations_of b cs + (if busy arb1 b then 1 else 0) \<le> 1"
    using cs al nr(2) by (rule Cons.IH)
  have b1: "busy arb1 b = (busy arb b \<or> allocates b c)"
    using c Cons.prems(2) nr(1) by (rule run_call_busy(1))
  have b2: "allocates b c \<Longrightarrow> \<not> busy arb b"
    using c Cons.prems(2) nr(1) by (rule run_call_busy(2))
  show ?case
  proof (cases "allocates b c")
    case True
    with b1 b2 ih show ?thesis by (simp add: allocations_of_def)
  next
    case False
    with b1 ih show ?thesis by (simp add: allocations_of_def)
  qed
qed

lemma step_resets:
  assumes "step dispatch_ready_cu allocate_reads allocate_cu rfu = Inr rfu'"
  shows "list_all is_free
           (take (m_num_banks (m_arbiter rfu')) (m_allocated_bank (m_arbiter rfu')))"
proof -
  from assms obtain rfu3 where "rfu' = process_banks rfu3"
    by (auto simp: step_def split: sum.splits)
  then show ?thesis
    using reset_alloction_all_free [of "m_arbiter rfu3"] by (simp add: process_banks_def)
qed

text \<open>
  C2: in every run of allocation calls that returns (no assertion failed), starting from
  an arbiter as \<^verbatim>\<open>init\<close> leaves it, each stretch of calls between two resets holds at most
  one allocation per bank, read and write counted together; a second allocation of a busy
  bank fails its assertion.  And every \<^verbatim>\<open>step()\<close> that returns leaves all
  \<^verbatim>\<open>m_num_banks\<close> banks free, whatever its first three phases did.
\<close>

theorem C2_bank_exclusive:
  assumes "arbiter_init num_cu num_banks = Inr arb0"
    and "run_calls (earlier @ within @ later) arb0 = Inr arb'"
    and "Reset_alloction \<notin> set within"
    and "step dispatch_ready_cu allocate_reads allocate_cu rfu = Inr rfu'"
  shows "allocations_of b within \<le> 1
       \<and> list_all is_free
           (take (m_num_banks (m_arbiter rfu')) (m_allocated_bank (m_arbiter rfu')))
       \<and> (busy arb b \<longrightarrow> allocate_for_read b op arb = Inl Assertion_failed
                         \<and> allocate_bank_for_write b op arb = Inl Assertion_failed)"
proof (intro conjI)
  from assms(2) obtain arb1 arb2 where e: "run_calls earlier arb0 = Inr arb1"
    and c: "run_calls within arb1 = Inr arb2"
    by (auto simp: run_calls_append split: sum.splits)
  have "banks_allocated arb1"
    using e arbiter_init_allocated [OF assms(1)] by (rule run_calls_allocated)
  with c have "allocations_of b within + (if busy arb1 b then 1 else 0) \<le> 1"
    using assms(3) by (rule allocations_bounded)
  then show "allocations_of b within \<le> 1" by simp
next
  show "list_all is_free
           (take (m_num_banks (m_arbiter rfu')) (m_allocated_bank (m_arbiter rfu')))"
    using assms(4) by (rule step_resets)
next
  show "busy arb b \<longrightarrow> allocate_for_read b op arb = Inl Assertion_failed
                         \<and> allocate_bank_for_write b op arb = Inl Assertion_failed"
    by (simp add: busy_bank_refuses)
qed


theorem C2_witness:
  "allocations_of 1 [Allocate_bank_for_write 1 example_op, Allocate_for_read 0 example_op] \<le> 1
   \<and> list_all is_free (take (m_num_banks (m_arbiter example_rfu_after))
        (m_allocated_bank (m_arbiter example_rfu_after)))"
proof -
  let ?calls = "[Allocate_for_read 1 example_op, Reset_alloction]
              @ [Allocate_bank_for_write 1 example_op, Allocate_for_read 0 example_op]
              @ [Reset_alloction, Allocate_for_read 1 example_op]"
  have init: "arbiter_init 2 4 = Inr example_arbiter"
    by code_simp
  have "case run_calls ?calls example_arbiter of Inl e \<Rightarrow> False | Inr arb' \<Rightarrow> True"
    by code_simp
  then obtain arb' where run: "run_calls ?calls example_arbiter = Inr arb'"
    by (cases "run_calls ?calls example_arbiter") simp_all
  have nr: "Reset_alloction
      \<notin> set [Allocate_bank_for_write 1 example_op, Allocate_for_read 0 example_op]"
    by simp
  have step: "step Inr example_allocate_reads example_allocate_cu example_rfu
                = Inr example_rfu_after"
    by code_simp
  note c2 = C2_bank_exclusive [OF init run nr step]
  from c2 [THEN conjunct1] c2 [THEN conjunct2, THEN conjunct1] show ?thesis ..
qed

subsection \<open>Collector unit\<close>

lemma mask_le_refl: "mask_le a a"
  by (simp add: mask_le_def list_all2_same)

lemma mask_le_trans: "mask_le a b \<Longrightarrow> mask_le b c \<Longrightarrow> mask_le a c"
  unfolding mask_le_def
  by (auto simp: list_all2_conv_all_nth)

lemma cleared_bit_was_set: "n < length a \<Longrightarrow> a[i := False] ! n \<Longrightarrow> a ! n"
  by (cases "n = i") simp_all

lemma mask_le_clear: "mask_le (a[i := False]) a"
  unfolding mask_le_def list_all2_conv_all_nth
  using cleared_bit_was_set by auto

lemma collect_operand_result:
  assumes "collect_operand op cu = Inr cu'"
  shows "cu' = cu\<lparr>m_not_ready := (m_not_ready cu)[op := False]\<rparr>"
    and "op < length (m_not_ready cu)"
  using assms by (auto simp: collect_operand_def split: if_splits)

lemma collect_operands_Cons:
  "collect_operands (op # ops) cu = Inr cu' \<Longrightarrow>
   \<exists>cu1. collect_operand op cu = Inr cu1 \<and> collect_operands ops cu1 = Inr cu'"
  by (cases "collect_operand op cu") simp_all

lemma collect_operands_result:
  assumes "collect_operands ops cu = Inr cu'"
  shows "cu'\<lparr>m_not_ready := m_not_ready cu\<rparr> = cu
       \<and> mask_le (m_not_ready cu') (m_not_ready cu)"
  using assms
proof (induction ops arbitrary: cu)
  case Nil
  then show ?case by (simp add: mask_le_refl)
next
  case (Cons op ops)
  from collect_operands_Cons [OF Cons.prems] obtain cu1
    where 1: "collect_operand op cu = Inr cu1" and 2: "collect_operands ops cu1 = Inr cu'"
    by blast
  from collect_operand_result(1) [OF 1]
  have cu1: "cu1 = cu\<lparr>m_not_ready := (m_not_ready cu)[op := False]\<rparr>" .
  note ih = Cons.IH [OF 2, THEN conjunct1] and le = Cons.IH [OF 2, THEN conjunct2]
  have "mask_le (m_not_ready cu1) (m_not_ready cu)"
    by (simp add: cu1 mask_le_clear)
  with le have "mask_le (m_not_ready cu') (m_not_ready cu)" by (rule mask_le_trans)
  moreover have "cu'\<lparr>m_not_ready := m_not_ready cu\<rparr> = cu"
  proof -
    have "cu'\<lparr>m_not_ready := m_not_ready cu\<rparr>
            = (cu'\<lparr>m_not_ready := m_not_ready cu1\<rparr>)\<lparr>m_not_ready := m_not_ready cu\<rparr>"
      by simp
    also have "\<dots> = cu1\<lparr>m_not_ready := m_not_ready cu\<rparr>" by (simp only: ih)
    also have "\<dots> = cu" by (simp add: cu1)
    finally show ?thesis .
  qed
  ultimately show ?case by (rule conjI [rotated])
qed

lemma mask_le_length: "mask_le a b \<Longrightarrow> length a = length b"
  by (simp add: mask_le_def)

text \<open>
  C8: a call \<^verbatim>\<open>collect_operand(op)\<close> that returns clears bit \<open>op\<close> of \<open>not_ready\<close> and
  changes nothing else, so the mask after it is bitwise below the mask before it.  After
  any sequence of such calls the mask is below the one the unit started with and putting
  the old mask back gives the old unit; the mask becomes all-zero as a whole only at
  \<open>dispatch\<close>.
\<close>

theorem C8_not_ready_monotone:
  "(collect_operand op cu = Inr cu1 \<longrightarrow>
      cu1 = cu\<lparr>m_not_ready := (m_not_ready cu)[op := False]\<rparr>
      \<and> mask_le (m_not_ready cu1) (m_not_ready cu)
      \<and> (\<forall>i. i \<noteq> op \<longrightarrow> m_not_ready cu1 ! i = m_not_ready cu ! i))
   \<and> (collect_operands ops cu = Inr cu2 \<longrightarrow>
      cu2\<lparr>m_not_ready := m_not_ready cu\<rparr> = cu
      \<and> mask_le (m_not_ready cu2) (m_not_ready cu)
      \<and> m_not_ready (dispatch cu2) = replicate (length (m_not_ready cu)) False)"
proof (intro conjI impI)
  assume a: "collect_operand op cu = Inr cu1"
  show c1: "cu1 = cu\<lparr>m_not_ready := (m_not_ready cu)[op := False]\<rparr>"
    using a by (rule collect_operand_result(1))
  show "mask_le (m_not_ready cu1) (m_not_ready cu)"
    by (simp add: c1 mask_le_clear)
  show "\<forall>i. i \<noteq> op \<longrightarrow> m_not_ready cu1 ! i = m_not_ready cu ! i"
    by (simp add: c1)
next
  assume b: "collect_operands ops cu = Inr cu2"
  show "cu2\<lparr>m_not_ready := m_not_ready cu\<rparr> = cu"
    by (rule collect_operands_result [OF b, THEN conjunct1])
  show le: "mask_le (m_not_ready cu2) (m_not_ready cu)"
    by (rule collect_operands_result [OF b, THEN conjunct2])
  show "m_not_ready (dispatch cu2) = replicate (length (m_not_ready cu)) False"
    using mask_le_length [OF le] by (simp add: dispatch_def)
qed



theorem C8_witness:
  "mask_le [False, True, False, False] [True, True, False, True]
   \<and> m_not_ready (dispatch (example_cu\<lparr>m_not_ready := [False, True, False, False]\<rparr>))
       = [False, False, False, False]"
proof -
  have run: "collect_operands [0, 3] example_cu
               = Inr (example_cu\<lparr>m_not_ready := [False, True, False, False]\<rparr>)"
    by (simp add: collect_operand_def example_cu_def collector_unit_t_new_def)
  have mask: "m_not_ready example_cu = [True, True, False, True]"
    by (simp add: example_cu_def)
  note r = C8_not_ready_monotone [THEN conjunct2, THEN mp, OF run]
  from r [THEN conjunct2, THEN conjunct1]
  have 1: "mask_le [False, True, False, False] [True, True, False, True]"
    by (simp add: mask)
  from r [THEN conjunct2, THEN conjunct2]
  have 2: "m_not_ready (dispatch (example_cu\<lparr>m_not_ready := [False, True, False, False]\<rparr>))
       = [False, False, False, False]"
    by (simp add: mask)
  from 1 2 show ?thesis ..
qed

subsection \<open>find\_ready\<close>

lemma u32_id: "x < 2 ^ 32 \<Longrightarrow> u32 x = x"
  by (simp add: u32_def)

lemma find_ready_loop_eq:
  assumes "du_num_collectors du = length cus"
    and "du_last_cu du + du_num_collectors du + rr \<le> 2 ^ 32"
  shows "find_ready_loop ready cus rr n du =
     (case find (\<lambda>c. ready (cus ! c))
             (map (\<lambda>n. (du_last_cu du + n + rr) mod du_num_collectors du)
                [n..<du_num_collectors du]) of
        None \<Rightarrow> Inr (None, du)
      | Some c \<Rightarrow> Inr (Some c, du\<lparr>du_last_cu := c\<rparr>))"
  using assms
proof (induction ready cus rr n du rule: find_ready_loop.induct)
  case (1 ready cus rr n du)
  show ?case
  proof (cases "n < du_num_collectors du")
    case False
    then show ?thesis by (subst find_ready_loop.simps) simp
  next
    case True
    let ?N = "du_num_collectors du"
    let ?c = "(du_last_cu du + n + rr) mod ?N"
    have small: "du_last_cu du + n + rr < 2 ^ 32" using True "1.prems"(2) by simp
    then have c: "u32 (u32 (du_last_cu du + n) + rr) mod ?N = ?c"
      by (simp add: u32_id)
    have "0 < ?N" using True by simp
    then have "?c < ?N" by (rule mod_less_divisor)
    then have cl: "?c < length cus" using "1.prems"(1) by simp
    have upt: "[n..<?N] = n # [Suc n..<?N]" using True by (simp add: upt_conv_Cons)
    show ?thesis
    proof (cases "ready (cus ! ?c)")
      case r: True
      show ?thesis
        by (subst find_ready_loop.simps) (simp add: True c cl r upt Let_def)
    next
      case r: False
      have ih: "find_ready_loop ready cus rr (n + 1) du =
         (case find (\<lambda>c. ready (cus ! c))
             (map (\<lambda>n. (du_last_cu du + n + rr) mod du_num_collectors du)
                [n + 1..<du_num_collectors du]) of
            None \<Rightarrow> Inr (None, du)
          | Some c \<Rightarrow> Inr (Some c, du\<lparr>du_last_cu := c\<rparr>))"
      proof (rule "1.IH" [OF True refl])
        show "\<not> \<not> u32 (u32 (du_last_cu du + n) + rr) mod ?N < length cus"
          unfolding c using cl by simp
        show "\<not> ready (cus ! (u32 (u32 (du_last_cu du + n) + rr) mod ?N))"
          unfolding c using r .
        show "du_num_collectors du = length cus" by (rule "1.prems"(1))
        show "du_last_cu du + du_num_collectors du + rr \<le> 2 ^ 32" by (rule "1.prems"(2))
      qed
      show ?thesis
        by (subst find_ready_loop.simps) (simp add: True c cl r upt Let_def ih [simplified])
    qed
  qed
qed


lemma residues_covered:
  fixes a N :: nat
  assumes "c < N"
  shows "c \<in> set (map (\<lambda>n. (a + n) mod N) [0..<N])"
proof -
  define k where "k = (c + (N - a mod N)) mod N"
  have kN: "k < N" using assms by (simp add: k_def)
  have "(a + k) mod N = (a + (c + (N - a mod N))) mod N"
    unfolding k_def by (rule mod_add_right_eq)
  also have "a + (c + (N - a mod N)) = c + N * (a div N + 1)"
  proof -
    have "a mod N \<le> N" using assms by (simp add: less_imp_le)
    moreover have "N * (a div N) + a mod N = a" by simp
    moreover have "N * (a div N + 1) = N * (a div N) + N" by simp
    ultimately show ?thesis by linarith
  qed
  also have "(c + N * (a div N + 1)) mod N = c mod N" by (rule mod_mult_self2)
  also have "c mod N = c" using assms by (rule mod_less)
  finally have "(a + k) mod N = c" .
  then have "c = (\<lambda>n. (a + n) mod N) k" by (rule sym)
  moreover have "k \<in> set [0..<N]" using kN by simp
  ultimately have "c \<in> (\<lambda>n. (a + n) mod N) ` set [0..<N]" by (rule image_eqI)
  then show ?thesis by simp
qed

lemma scan_order_set:
  "set (scan_order du) = {0..<du_num_collectors du}"
proof
  show "set (scan_order du) \<subseteq> {0..<du_num_collectors du}"
    by (auto simp: scan_order_def)
next
  show "{0..<du_num_collectors du} \<subseteq> set (scan_order du)"
  proof
    fix c assume "c \<in> {0..<du_num_collectors du}"
    then have "c < du_num_collectors du" by simp
    from residues_covered [OF this, of "du_last_cu du + rr_increment_of du"]
    show "c \<in> set (scan_order du)"
      by (simp add: scan_order_def add.assoc add.left_commute add.commute)
  qed
qed

text \<open>
  C4: \<^verbatim>\<open>find_ready\<close> visits the collector units in the order
  \<open>c = (last_cu + n + inc) mod N\<close> for \<open>n = 0, ..., N - 1\<close>, with
  \<open>inc = cusPerSched - last_cu mod cusPerSched\<close> in sub-core mode and \<open>inc = 1\<close> otherwise;
  it returns the first ready unit of that order and records it in \<open>last_cu\<close>, and it returns
  \<^verbatim>\<open>NULL\<close> exactly when no unit is ready.  The hypotheses are those under which the C++
  is defined and its 32-bit sums do not wrap: at least one scheduler, in sub-core mode no
  more schedulers than units, \<open>N\<close> the size of the vector, \<open>last_cu\<close> at most \<open>N\<close>, and
  \<open>3 N\<close> at most \<open>2 ^ 32\<close>.
\<close>

theorem C4_find_ready:
  assumes scheds: "0 < du_num_warp_scheds du"
    and sub: "du_sub_core_model du \<longrightarrow> du_num_warp_scheds du \<le> du_num_collectors du"
    and size: "du_num_collectors du = length cus"
    and last: "du_last_cu du \<le> du_num_collectors du"
    and small: "3 * du_num_collectors du \<le> 2 ^ 32"
  shows "find_ready ready cus du =
           (case find (\<lambda>c. ready (cus ! c)) (scan_order du) of
              None \<Rightarrow> Inr (None, du)
            | Some c \<Rightarrow> Inr (Some c, du\<lparr>du_last_cu := c\<rparr>))
       \<and> (find_ready ready cus du = Inr (None, du)) = (\<forall>c < length cus. \<not> ready (cus ! c))"
proof -
  let ?N = "du_num_collectors du"
  let ?per = "?N div du_num_warp_scheds du"
  let ?rr = "rr_increment_of du"
  have per_le: "?per \<le> ?N" by (simp add: div_le_dividend)
  have rr_le: "?rr \<le> ?N \<or> ?N = 0"
  proof (cases "du_sub_core_model du")
    case True
    then have "?rr \<le> ?per" by (simp add: rr_increment_of_def)
    then have "?rr \<le> ?N" using per_le by (rule le_trans)
    then show ?thesis ..
  next
    case False
    then show ?thesis by (auto simp: rr_increment_of_def)
  qed
  have rr_small: "?rr < 2 ^ 32"
  proof (cases "du_sub_core_model du")
    case True
    then have "?rr \<le> ?per" by (simp add: rr_increment_of_def)
    moreover have "(0::nat) < 2 ^ 32" by simp
    ultimately show ?thesis using per_le small by linarith
  next
    case False
    then show ?thesis by (simp add: rr_increment_of_def)
  qed
  have fits: "du_last_cu du + ?N + ?rr \<le> 2 ^ 32 \<or> ?N = 0"
    using rr_le last small by auto
  have loop: "find_ready_loop ready cus ?rr 0 du =
     (case find (\<lambda>c. ready (cus ! c)) (scan_order du) of
        None \<Rightarrow> Inr (None, du)
      | Some c \<Rightarrow> Inr (Some c, du\<lparr>du_last_cu := c\<rparr>))"
  proof (cases "?N = 0")
    case True
    then show ?thesis by (subst find_ready_loop.simps) (simp add: scan_order_def)
  next
    case False
    with fits have "du_last_cu du + ?N + ?rr \<le> 2 ^ 32" by simp
    from find_ready_loop_eq [OF size this] show ?thesis by (simp add: scan_order_def)
  qed
  have call: "find_ready ready cus du = find_ready_loop ready cus ?rr 0 du"
  proof (cases "du_sub_core_model du")
    case True
    with sub scheds have "?per \<noteq> 0" by (simp add: div_greater_zero_iff)
    with True scheds rr_small show ?thesis
      by (simp add: find_ready_def rr_increment_of_def u32_id Let_def)
  next
    case False
    with scheds show ?thesis by (simp add: find_ready_def rr_increment_of_def Let_def)
  qed
  have first: "find_ready ready cus du =
           (case find (\<lambda>c. ready (cus ! c)) (scan_order du) of
              None \<Rightarrow> Inr (None, du)
            | Some c \<Rightarrow> Inr (Some c, du\<lparr>du_last_cu := c\<rparr>))"
    using call loop by simp
  have "(find (\<lambda>c. ready (cus ! c)) (scan_order du) = None)
          = (\<forall>c < length cus. \<not> ready (cus ! c))"
    by (auto simp: find_None_iff scan_order_set size [symmetric])
  then have "(find_ready ready cus du = Inr (None, du)) = (\<forall>c < length cus. \<not> ready (cus ! c))"
    by (cases "find (\<lambda>c. ready (cus ! c)) (scan_order du)") (simp_all add: first)
  with first show ?thesis by simp
qed

theorem C4_witness:
  "scan_order example_du = [2, 3, 0, 1]
   \<and> find_ready (\<lambda>c. c) [False, True, False, True] example_du
       = Inr (Some 3, example_du\<lparr>du_last_cu := 3\<rparr>)"
proof -
  have du1: "0 < du_num_warp_scheds example_du"
    and du2: "du_sub_core_model example_du \<longrightarrow> du_num_warp_scheds example_du \<le> du_num_collectors example_du"
    and du3: "du_num_collectors example_du = length [False, True, False, True]"
    and du4: "du_last_cu example_du \<le> du_num_collectors example_du"
    and du5: "3 * du_num_collectors example_du \<le> 2 ^ 32"
    by (simp_all add: example_du_def dispatch_unit_t_new_def u32_def)
  have upt4: "[0..<4] = [0, 1, 2, 3]"
    by code_simp
  have order: "scan_order example_du = [2, 3, 0, 1]"
    by (simp add: scan_order_def rr_increment_of_def example_du_def dispatch_unit_t_new_def
        u32_def upt4)
  have "find_ready (\<lambda>c. c) [False, True, False, True] example_du =
           (case find (\<lambda>c. [False, True, False, True] ! c) (scan_order example_du) of
              None \<Rightarrow> Inr (None, example_du)
            | Some c \<Rightarrow> Inr (Some c, example_du\<lparr>du_last_cu := c\<rparr>))"
    using du1 du2 du3 du4 du5 by (rule C4_find_ready [THEN conjunct1])
  then show ?thesis by (simp add: order)
qed

section \<open>Properties of the simulation driver\<close>

subsection \<open>process\_commands\<close>

lemma take_drop_step:
  "i < length xs \<Longrightarrow> i < k \<Longrightarrow>
   take (k - i) (drop i xs) = xs ! i # take (k - Suc i) (drop (Suc i) xs)"
proof -
  assume i: "i < length xs" and k: "i < k"
  have "drop i xs = xs ! i # drop (Suc i) xs" using i by (simp add: Cons_nth_drop_Suc)
  moreover have "k - i = Suc (k - Suc i)" using k by simp
  ultimately show ?thesis by simp
qed

lemma fill_post_refl:
  "\<not> (length (kernels_info b) < window_size b \<and> command_idx b < length (commandlist b))
   \<Longrightarrow> fill_post sim b b"
  by (auto simp: fill_post_def consumed_def)

lemma fill_post_step:
  assumes i: "command_idx b < length (commandlist b)"
    and b1: "commandlist b1 = commandlist b" "window_size b1 = window_size b"
      "command_idx b1 = command_idx b + 1"
    and acc: "accepted (commandlist b ! command_idx b)"
    and ker: "kernels_info b1 = kernels_info b @
         map (\<lambda>c. parse_kernel_info sim (command_string c))
           (filter (\<lambda>c. command_m_type c = kernel_launch) [commandlist b ! command_idx b])"
    and gpu: "m_gpgpu_sim b1 = foldl (forward_memcpy sim) (m_gpgpu_sim b)
           (filter (\<lambda>c. command_m_type c = cpu_gpu_mem_copy) [commandlist b ! command_idx b])"
    and rest: "fill_post sim b1 b'"
  shows "fill_post sim b b'"
proof -
  let ?cmd = "commandlist b ! command_idx b"
  from rest b1 have le: "command_idx b + 1 \<le> command_idx b'"
    by (simp add: fill_post_def)
  have cons: "consumed b b' = ?cmd # consumed b1 b'"
    unfolding consumed_def b1 using i le by (simp add: take_drop_step)
  from rest have bound: "command_idx b' \<le> length (commandlist b)"
    using b1 i by (auto simp: fill_post_def)
  show ?thesis
    using rest le bound acc
    unfolding fill_post_def cons ker gpu b1
    by (cases "command_m_type ?cmd = kernel_launch";
        cases "command_m_type ?cmd = cpu_gpu_mem_copy") simp_all
qed

lemma process_commands_post:
  "process_commands sim b = Inr b' \<Longrightarrow> fill_post sim b b'"
proof (induction sim b rule: process_commands.induct)
  case (1 sim b)
  let ?cmd = "commandlist b ! command_idx b"
  show ?case
  proof (cases "length (kernels_info b) < window_size b
                \<and> command_idx b < length (commandlist b)")
    case False
    with "1.prems" have "b' = b" by (subst (asm) process_commands.simps) auto
    with False show ?thesis by (simp add: fill_post_refl)
  next
    case True
    then have i: "command_idx b < length (commandlist b)" by simp
    show ?thesis
    proof (cases "command_m_type ?cmd")
      case cpu_gpu_mem_copy
      obtain addre Bcount where p: "parse_memcpy_info sim (command_string ?cmd) = (addre, Bcount)"
        by (cases "parse_memcpy_info sim (command_string ?cmd)")
      let ?b1 = "(print (''launching memcpy command : '' @ command_string ?cmd) b)
                     \<lparr>m_gpgpu_sim := gpu_perf_memcpy_to_gpu sim addre Bcount (m_gpgpu_sim b),
                      command_idx := command_idx b + 1\<rparr>"
      from "1.prems" True cpu_gpu_mem_copy p
      have run: "process_commands sim ?b1 = Inr b'"
        by (subst (asm) process_commands.simps) (simp add: Let_def)
      have rest: "fill_post sim ?b1 b'"
        using True refl cpu_gpu_mem_copy p [symmetric] run by (rule "1.IH"(1))
      show ?thesis
        by (rule fill_post_step [OF i _ _ _ _ _ _ rest])
           (simp_all add: print_def accepted_def cpu_gpu_mem_copy forward_memcpy_def p)
    next
      case kernel_launch
      let ?b1 = "(print (''Header info loaded for kernel command : '' @ command_string ?cmd)
                 (b\<lparr>kernels_info :=
                      kernels_info b @ [parse_kernel_info sim (command_string ?cmd)]\<rparr>))
                \<lparr>command_idx := command_idx b + 1\<rparr>"
      from "1.prems" True kernel_launch
      have run: "process_commands sim ?b1 = Inr b'"
        by (subst (asm) process_commands.simps) (simp add: Let_def)
      have rest: "fill_post sim ?b1 b'"
        using True refl _ _ run
        by (rule "1.IH"(2)) (simp_all add: kernel_launch)
      show ?thesis
        by (rule fill_post_step [OF i _ _ _ _ _ _ rest])
           (simp_all add: print_def accepted_def kernel_launch)
    next
      case (other_command k)
      with "1.prems" True show ?thesis
        by (subst (asm) process_commands.simps) (simp add: Let_def)
    qed
  qed
qed

lemma process_commands_undefined:
  assumes "length (kernels_info b) < window_size b" "command_idx b < length (commandlist b)"
    and "command_m_type (commandlist b ! command_idx b) = other_command k"
  shows "process_commands sim b = Inl (Runtime_error ''undefined command'')"
  using assms by (subst process_commands.simps) (simp add: Let_def)

lemma process_commands_error:
  "process_commands sim b = Inl e \<Longrightarrow> e = Runtime_error ''undefined command''"
proof (induction sim b rule: process_commands.induct)
  case (1 sim b)
  let ?cmd = "commandlist b ! command_idx b"
  show ?case
  proof (cases "length (kernels_info b) < window_size b
                \<and> command_idx b < length (commandlist b)")
    case False
    with "1.prems" show ?thesis by (subst (asm) process_commands.simps) auto
  next
    case True
    show ?thesis
    proof (cases "command_m_type ?cmd")
      case cpu_gpu_mem_copy
      obtain addre Bcount where p: "parse_memcpy_info sim (command_string ?cmd) = (addre, Bcount)"
        by (cases "parse_memcpy_info sim (command_string ?cmd)")
      let ?b1 = "(print (''launching memcpy command : '' @ command_string ?cmd) b)
                     \<lparr>m_gpgpu_sim := gpu_perf_memcpy_to_gpu sim addre Bcount (m_gpgpu_sim b),
                      command_idx := command_idx b + 1\<rparr>"
      from "1.prems" True cpu_gpu_mem_copy p
      have run: "process_commands sim ?b1 = Inl e"
        by (subst (asm) process_commands.simps) (simp add: Let_def)
      show ?thesis
        using True refl cpu_gpu_mem_copy p [symmetric] run by (rule "1.IH"(1))
    next
      case kernel_launch
      let ?b1 = "(print (''Header info loaded for kernel command : '' @ command_string ?cmd)
                 (b\<lparr>kernels_info :=
                      kernels_info b @ [parse_kernel_info sim (command_string ?cmd)]\<rparr>))
                \<lparr>command_idx := command_idx b + 1\<rparr>"
      from "1.prems" True kernel_launch
      have run: "process_commands sim ?b1 = Inl e"
        by (subst (asm) process_commands.simps) (simp add: Let_def)
      show ?thesis
        using True refl _ _ run
        by (rule "1.IH"(2)) (simp_all add: kernel_launch)
    next
      case (other_command k)
      with "1.prems" True show ?thesis
        by (subst (asm) process_commands.simps) (simp add: Let_def)
    qed
  qed
qed

lemma window_before_cursor: "window_before b (command_idx b) = length (kernels_info b)"
  by (simp add: window_before_def)

lemma window_before_step:
  assumes i: "command_idx b < length (commandlist b)" and j: "command_idx b < j"
    and b1: "commandlist b1 = commandlist b" "command_idx b1 = command_idx b + 1"
    and ker: "kernels_info b1 = kernels_info b @
         map f (filter (\<lambda>c. command_m_type c = kernel_launch) [commandlist b ! command_idx b])"
  shows "window_before b1 j = window_before b j"
proof -
  have "take (j - command_idx b) (drop (command_idx b) (commandlist b))
      = commandlist b ! command_idx b
        # take (j - Suc (command_idx b)) (drop (Suc (command_idx b)) (commandlist b))"
    using i j by (rule take_drop_step)
  then show ?thesis by (simp add: window_before_def b1 ker)
qed

lemma undefined_command_step:
  assumes i: "command_idx b < length (commandlist b)"
    and acc: "accepted (commandlist b ! command_idx b)"
    and b1: "commandlist b1 = commandlist b" "command_idx b1 = command_idx b + 1"
      "window_size b1 = window_size b"
    and ker: "kernels_info b1 = kernels_info b @
         map f (filter (\<lambda>c. command_m_type c = kernel_launch) [commandlist b ! command_idx b])"
  shows "undefined_command_at b1 j = undefined_command_at b j"
proof (cases "command_idx b < j")
  case True
  have t: "take (j - command_idx b) (drop (command_idx b) (commandlist b))
      = commandlist b ! command_idx b
        # take (j - Suc (command_idx b)) (drop (Suc (command_idx b)) (commandlist b))"
    using i True by (rule take_drop_step)
  have w: "window_before b1 j = window_before b j"
    using i True b1(1,2) ker by (rule window_before_step)
  show ?thesis
    using True acc by (simp add: undefined_command_at_def b1 t w)
next
  case False
  then have "j < command_idx b \<or> j = command_idx b" by linarith
  then show ?thesis
    using acc by (auto simp: undefined_command_at_def b1)
qed

lemma not_accepted: "\<not> accepted c \<Longrightarrow> \<exists>k. command_m_type c = other_command k"
  by (cases "command_m_type c") (simp_all add: accepted_def)

lemma process_commands_stop:
  "\<not> (length (kernels_info b) < window_size b \<and> command_idx b < length (commandlist b))
   \<Longrightarrow> process_commands sim b = Inr b"
  by (subst process_commands.simps) auto

lemma process_commands_step:
  assumes room: "length (kernels_info b) < window_size b"
    and i: "command_idx b < length (commandlist b)"
    and acc: "accepted (commandlist b ! command_idx b)"
  shows "\<exists>b1. process_commands sim b = process_commands sim b1
           \<and> commandlist b1 = commandlist b \<and> command_idx b1 = command_idx b + 1
           \<and> window_size b1 = window_size b
           \<and> kernels_info b1 = kernels_info b @
                map (\<lambda>c. parse_kernel_info sim (command_string c))
                  (filter (\<lambda>c. command_m_type c = kernel_launch)
                     [commandlist b ! command_idx b])"
proof -
  let ?cmd = "commandlist b ! command_idx b"
  from acc have "command_m_type ?cmd = cpu_gpu_mem_copy \<or> command_m_type ?cmd = kernel_launch"
    by (simp add: accepted_def)
  then show ?thesis
  proof
    assume t: "command_m_type ?cmd = cpu_gpu_mem_copy"
    obtain addre Bcount where p: "parse_memcpy_info sim (command_string ?cmd) = (addre, Bcount)"
      by (cases "parse_memcpy_info sim (command_string ?cmd)")
    let ?b1 = "(print (''launching memcpy command : '' @ command_string ?cmd) b)
                     \<lparr>m_gpgpu_sim := gpu_perf_memcpy_to_gpu sim addre Bcount (m_gpgpu_sim b),
                      command_idx := command_idx b + 1\<rparr>"
    have "process_commands sim b = process_commands sim ?b1"
      using room i t p by (subst process_commands.simps) (simp add: Let_def)
    moreover have "commandlist ?b1 = commandlist b" "command_idx ?b1 = command_idx b + 1"
      "window_size ?b1 = window_size b"
      "kernels_info ?b1 = kernels_info b @
                map (\<lambda>c. parse_kernel_info sim (command_string c))
                  (filter (\<lambda>c. command_m_type c = kernel_launch) [?cmd])"
      using t by (simp_all add: print_def)
    ultimately show ?thesis by (intro exI [of _ ?b1] conjI)
  next
    assume t: "command_m_type ?cmd = kernel_launch"
    let ?b1 = "(print (''Header info loaded for kernel command : '' @ command_string ?cmd)
                 (b\<lparr>kernels_info :=
                      kernels_info b @ [parse_kernel_info sim (command_string ?cmd)]\<rparr>))
                \<lparr>command_idx := command_idx b + 1\<rparr>"
    have "process_commands sim b = process_commands sim ?b1"
      using room i t by (subst process_commands.simps) (simp add: Let_def)
    moreover have "commandlist ?b1 = commandlist b" "command_idx ?b1 = command_idx b + 1"
      "window_size ?b1 = window_size b"
      "kernels_info ?b1 = kernels_info b @
                map (\<lambda>c. parse_kernel_info sim (command_string c))
                  (filter (\<lambda>c. command_m_type c = kernel_launch) [?cmd])"
      using t by (simp_all add: print_def)
    ultimately show ?thesis by (intro exI [of _ ?b1] conjI)
  qed
qed

lemma process_commands_room:
  "process_commands sim b = Inr b' \<Longrightarrow> command_idx b \<le> j \<Longrightarrow> j < command_idx b' \<Longrightarrow>
   window_before b j < window_size b"
proof (induction "length (commandlist b) - command_idx b" arbitrary: b rule: less_induct)
  case less
  show ?case
  proof (cases "length (kernels_info b) < window_size b
                \<and> command_idx b < length (commandlist b)")
    case False
    then have "process_commands sim b = Inr b" by (rule process_commands_stop)
    with less.prems show ?thesis by simp
  next
    case True
    then have room: "length (kernels_info b) < window_size b"
      and i: "command_idx b < length (commandlist b)" by simp_all
    have acc: "accepted (commandlist b ! command_idx b)"
    proof (rule ccontr)
      assume "\<not> accepted (commandlist b ! command_idx b)"
      then obtain k where "command_m_type (commandlist b ! command_idx b) = other_command k"
        using not_accepted by blast
      from process_commands_undefined [OF room i this] less.prems(1) show False by simp
    qed
    from process_commands_step [OF room i acc, of sim]
    obtain b1 where run: "process_commands sim b = process_commands sim b1"
      and b1: "commandlist b1 = commandlist b" "command_idx b1 = command_idx b + 1"
        "window_size b1 = window_size b"
      and ker: "kernels_info b1 = kernels_info b @
                map (\<lambda>c. parse_kernel_info sim (command_string c))
                  (filter (\<lambda>c. command_m_type c = kernel_launch)
                     [commandlist b ! command_idx b])"
      by blast
    show ?thesis
    proof (cases "j = command_idx b")
      case True
      then show ?thesis using room by (simp add: window_before_cursor)
    next
      case False
      with less.prems(2) have j: "command_idx b < j" by simp
      have m: "length (commandlist b1) - command_idx b1 < length (commandlist b) - command_idx b"
        using i by (simp add: b1)
      have r1: "process_commands sim b1 = Inr b'" using less.prems(1) run by simp
      have j1: "command_idx b1 \<le> j" using j by (simp add: b1)
      from less.hyps [OF m r1 j1 less.prems(3)]
      have "window_before b1 j < window_size b" by (simp add: b1)
      then show ?thesis using window_before_step [OF i j b1(1,2) ker] by simp
    qed
  qed
qed

lemma undefined_command_fatal:
  "undefined_command_at b j \<Longrightarrow>
   process_commands sim b = Inl (Runtime_error ''undefined command'')"
proof (induction "length (commandlist b) - command_idx b" arbitrary: b rule: less_induct)
  case less
  from less.prems have le: "command_idx b \<le> j" and jl: "j < length (commandlist b)"
    and all: "list_all accepted
                (take (j - command_idx b) (drop (command_idx b) (commandlist b)))"
    and w: "window_before b j < window_size b"
    and na: "\<not> accepted (commandlist b ! j)"
    by (simp_all add: undefined_command_at_def)
  have i: "command_idx b < length (commandlist b)" using le jl by simp
  have "length (kernels_info b) \<le> window_before b j" by (simp add: window_before_def)
  with w have room: "length (kernels_info b) < window_size b" by simp
  show ?case
  proof (cases "j = command_idx b")
    case True
    with na obtain k where "command_m_type (commandlist b ! command_idx b) = other_command k"
      using not_accepted by blast
    from process_commands_undefined [OF room i this] show ?thesis .
  next
    case False
    with le have j: "command_idx b < j" by simp
    have "take (j - command_idx b) (drop (command_idx b) (commandlist b))
      = commandlist b ! command_idx b
        # take (j - Suc (command_idx b)) (drop (Suc (command_idx b)) (commandlist b))"
      using i j by (rule take_drop_step)
    with all have acc: "accepted (commandlist b ! command_idx b)" by simp
    from process_commands_step [OF room i acc, of sim]
    obtain b1 where run: "process_commands sim b = process_commands sim b1"
      and b1: "commandlist b1 = commandlist b" "command_idx b1 = command_idx b + 1"
        "window_size b1 = window_size b"
      and ker: "kernels_info b1 = kernels_info b @
                map (\<lambda>c. parse_kernel_info sim (command_string c))
                  (filter (\<lambda>c. command_m_type c = kernel_launch)
                     [commandlist b ! command_idx b])"
      by blast
    have m: "length (commandlist b1) - command_idx b1 < length (commandlist b) - command_idx b"
      using i by (simp add: b1)
    have "undefined_command_at b1 j"
      using undefined_command_step [OF i acc b1 ker, of j] less.prems by simp
    from less.hyps [OF m this] run show ?thesis by simp
  qed
qed

lemma fatal_undefined_command:
  "process_commands sim b = Inl e \<Longrightarrow> \<exists>j. undefined_command_at b j"
proof (induction "length (commandlist b) - command_idx b" arbitrary: b rule: less_induct)
  case less
  show ?case
  proof (cases "length (kernels_info b) < window_size b
                \<and> command_idx b < length (commandlist b)")
    case False
    then have "process_commands sim b = Inr b" by (rule process_commands_stop)
    with less.prems show ?thesis by simp
  next
    case True
    then have room: "length (kernels_info b) < window_size b"
      and i: "command_idx b < length (commandlist b)" by simp_all
    show ?thesis
    proof (cases "accepted (commandlist b ! command_idx b)")
      case False
      with room i have "undefined_command_at b (command_idx b)"
        by (simp add: undefined_command_at_def window_before_cursor)
      then show ?thesis ..
    next
      case acc: True
      from process_commands_step [OF room i acc, of sim]
      obtain b1 where run: "process_commands sim b = process_commands sim b1"
        and b1: "commandlist b1 = commandlist b" "command_idx b1 = command_idx b + 1"
          "window_size b1 = window_size b"
        and ker: "kernels_info b1 = kernels_info b @
                map (\<lambda>c. parse_kernel_info sim (command_string c))
                  (filter (\<lambda>c. command_m_type c = kernel_launch)
                     [commandlist b ! command_idx b])"
        by blast
      have m: "length (commandlist b1) - command_idx b1 < length (commandlist b) - command_idx b"
        using i by (simp add: b1)
      have "process_commands sim b1 = Inl e" using less.prems run by simp
      from less.hyps [OF m this] obtain j where "undefined_command_at b1 j" ..
      then have "undefined_command_at b j"
        using undefined_command_step [OF i acc b1 ker, of j] by simp
      then show ?thesis ..
    qed
  qed
qed

lemma process_commands_returns:
  assumes "\<not> (\<exists>j. undefined_command_at b j)"
  shows "\<exists>b'. process_commands sim b = Inr b'"
proof (cases "process_commands sim b")
  case (Inl e)
  from fatal_undefined_command [OF this] assms show ?thesis by blast
next
  case (Inr b')
  then show ?thesis by blast
qed

text \<open>
  C5: \<^verbatim>\<open>process_commands\<close>, when it returns, has consumed the commands from the old cursor
  to the new one, in order and without a gap, and each of them while the window, as the
  commands before it had left it, held fewer than \<^verbatim>\<open>window_size\<close> kernels.  All of them are
  memory copies or kernel launches; the window is the old window followed by one kernel
  per launch, in order, and holds nothing for a memory copy; the simulator has received
  \<^verbatim>\<open>perf_memcpy_to_gpu(addr, bytes)\<close> for each memory copy, in order; and the window is full
  or the cursor is at the end of the list.  \<^verbatim>\<open>process_commands\<close> fails exactly when the
  cursor comes to a command of another type while the window has room, and then with
  \<^verbatim>\<open>std::runtime_error("undefined command")\<close>; in every other case it returns.
\<close>

theorem C5_process_commands:
  "(process_commands sim b = Inr b' \<longrightarrow>
      commandlist b' = commandlist b \<and> window_size b' = window_size b
      \<and> command_idx b \<le> command_idx b'
      \<and> (\<forall>j. command_idx b \<le> j \<and> j < command_idx b' \<longrightarrow>
             j < length (commandlist b) \<and> window_before b j < window_size b)
      \<and> list_all accepted (consumed b b')
      \<and> kernels_info b' =
          kernels_info b @
            map (\<lambda>c. parse_kernel_info sim (command_string c))
              (filter (\<lambda>c. command_m_type c = kernel_launch) (consumed b b'))
      \<and> m_gpgpu_sim b' =
          foldl (forward_memcpy sim) (m_gpgpu_sim b)
            (filter (\<lambda>c. command_m_type c = cpu_gpu_mem_copy) (consumed b b'))
      \<and> (window_size b \<le> length (kernels_info b')
          \<or> length (commandlist b) \<le> command_idx b'))
   \<and> (length (kernels_info b) < window_size b \<and> command_idx b < length (commandlist b)
       \<and> command_m_type (commandlist b ! command_idx b) = other_command k
       \<longrightarrow> process_commands sim b = Inl (Runtime_error ''undefined command''))
   \<and> (undefined_command_at b i
       \<longrightarrow> process_commands sim b = Inl (Runtime_error ''undefined command''))
   \<and> (process_commands sim b = Inl e
       \<longrightarrow> e = Runtime_error ''undefined command'' \<and> (\<exists>j. undefined_command_at b j))
   \<and> (\<not> (\<exists>j. undefined_command_at b j) \<longrightarrow> (\<exists>b''. process_commands sim b = Inr b''))"
proof (intro conjI impI allI)
  assume run: "process_commands sim b = Inr b'"
  then have post: "fill_post sim b b'" by (rule process_commands_post)
  then show "commandlist b' = commandlist b" "window_size b' = window_size b"
    "command_idx b \<le> command_idx b'"
    "list_all accepted (consumed b b')"
    "kernels_info b' =
          kernels_info b @
            map (\<lambda>c. parse_kernel_info sim (command_string c))
              (filter (\<lambda>c. command_m_type c = kernel_launch) (consumed b b'))"
    "m_gpgpu_sim b' =
          foldl (forward_memcpy sim) (m_gpgpu_sim b)
            (filter (\<lambda>c. command_m_type c = cpu_gpu_mem_copy) (consumed b b'))"
    by (simp_all add: fill_post_def)
  from post show "window_size b \<le> length (kernels_info b')
          \<or> length (commandlist b) \<le> command_idx b'"
    by (auto simp: fill_post_def)
  fix j assume j: "command_idx b \<le> j \<and> j < command_idx b'"
  from post have "command_idx b' \<le> length (commandlist b) \<or> command_idx b' = command_idx b"
    by (simp add: fill_post_def)
  with j show "j < length (commandlist b)" by linarith
  from j show "window_before b j < window_size b"
    using process_commands_room [OF run] by blast
next
  assume "length (kernels_info b) < window_size b \<and> command_idx b < length (commandlist b)
       \<and> command_m_type (commandlist b ! command_idx b) = other_command k"
  then show "process_commands sim b = Inl (Runtime_error ''undefined command'')"
    by (simp add: process_commands_undefined)
next
  assume "undefined_command_at b i"
  then show "process_commands sim b = Inl (Runtime_error ''undefined command'')"
    by (rule undefined_command_fatal)
next
  assume "process_commands sim b = Inl e"
  then show "e = Runtime_error ''undefined command''" "\<exists>j. undefined_command_at b j"
    by (rule process_commands_error, rule fatal_undefined_command)
next
  assume "\<not> (\<exists>j. undefined_command_at b j)"
  then show "\<exists>b''. process_commands sim b = Inr b''" by (rule process_commands_returns)
qed

theorem C5_witness:
  "process_commands toy_sim toy_bridge = Inr toy_bridge_filled
   \<and> consumed toy_bridge toy_bridge_filled = take 2 toy_commands
   \<and> kernels_info toy_bridge_filled = [parse_kernel_info toy_sim ''kernel-1'']
   \<and> m_gpgpu_sim toy_bridge_filled
       = gpu_perf_memcpy_to_gpu toy_sim 20 64 (m_gpgpu_sim toy_bridge)
   \<and> window_size toy_bridge \<le> length (kernels_info toy_bridge_filled)
   \<and> window_before toy_bridge 0 < window_size toy_bridge
   \<and> window_before toy_bridge 1 < window_size toy_bridge
   \<and> undefined_command_at undefined_bridge 1
   \<and> process_commands toy_sim undefined_bridge = Inl (Runtime_error ''undefined command'')
   \<and> (\<exists>b'. process_commands toy_sim toy_bridge = Inr b')"
proof -
  have run: "process_commands toy_sim toy_bridge = Inr toy_bridge_filled" by code_simp
  have cons: "consumed toy_bridge toy_bridge_filled = take 2 toy_commands" by code_simp
  have k: "kernels_info toy_bridge = []" and c: "command_idx toy_bridge_filled = 2"
    and c0: "command_idx toy_bridge = 0"
    and l: "length (commandlist toy_bridge) = 3" by code_simp+
  have m: "take 2 toy_commands
      = [\<lparr>command_string = ''MemcpyHtoD,0x1000,64'', command_m_type = cpu_gpu_mem_copy\<rparr>,
         \<lparr>command_string = ''kernel-1'', command_m_type = kernel_launch\<rparr>]"
    by code_simp
  have p: "parse_memcpy_info toy_sim ''MemcpyHtoD,0x1000,64'' = (20, 64)" by code_simp
  note r = C5_process_commands [of toy_sim toy_bridge toy_bridge_filled, THEN conjunct1,
      THEN mp, OF run]
  from r have 1: "kernels_info toy_bridge_filled = [parse_kernel_info toy_sim ''kernel-1'']"
    by (simp add: cons m k)
  from r have 2: "m_gpgpu_sim toy_bridge_filled
       = gpu_perf_memcpy_to_gpu toy_sim 20 64 (m_gpgpu_sim toy_bridge)"
    by (simp add: cons m forward_memcpy_def p)
  have 3: "window_size toy_bridge \<le> length (kernels_info toy_bridge_filled)"
    by code_simp
  from r have room: "\<forall>j. command_idx toy_bridge \<le> j \<and> j < command_idx toy_bridge_filled \<longrightarrow>
             j < length (commandlist toy_bridge)
             \<and> window_before toy_bridge j < window_size toy_bridge"
    by (elim conjE)
  have 4: "window_before toy_bridge 0 < window_size toy_bridge"
    using room [rule_format, of 0] by (simp add: c c0)
  have 5: "window_before toy_bridge 1 < window_size toy_bridge"
    using room [rule_format, of 1] by (simp add: c c0)
  have 6: "undefined_command_at undefined_bridge 1" by code_simp
  have 7: "process_commands toy_sim undefined_bridge = Inl (Runtime_error ''undefined command'')"
    using C5_process_commands [of toy_sim undefined_bridge _ _ 1, THEN conjunct2,
        THEN conjunct2, THEN conjunct1] 6
    by blast
  have none: "\<not> (\<exists>j. undefined_command_at toy_bridge j)"
  proof
    assume "\<exists>j. undefined_command_at toy_bridge j"
    then obtain j where j: "undefined_command_at toy_bridge j" ..
    then have "j < 3" by (simp add: undefined_command_at_def l)
    then have "j = 0 \<or> j = 1 \<or> j = 2" by linarith
    moreover have "accepted (commandlist toy_bridge ! 0)" "accepted (commandlist toy_bridge ! 1)"
      "accepted (commandlist toy_bridge ! 2)" by code_simp+
    ultimately show False using j by (auto simp: undefined_command_at_def)
  qed
  have 8: "\<exists>b'. process_commands toy_sim toy_bridge = Inr b'"
    using C5_process_commands [of toy_sim toy_bridge, THEN conjunct2, THEN conjunct2,
        THEN conjunct2, THEN conjunct2] none
    by blast
  from run cons 1 2 3 4 5 6 7 8 show ?thesis by (intro conjI)
qed

subsection \<open>atoi on decimal notation\<close>

lemma digit_cases:
  "(d::nat) < 10 \<Longrightarrow>
   d = 0 \<or> d = 1 \<or> d = 2 \<or> d = 3 \<or> d = 4 \<or> d = 5 \<or> d = 6 \<or> d = 7 \<or> d = 8 \<or> d = 9"
  by arith

lemma of_char_digit: "d < 10 \<Longrightarrow> (of_char (digit_char d) :: nat) = 48 + d"
  using digit_cases [of d] by (auto simp: digit_char_def)

lemma isdigit_digit: "d < 10 \<Longrightarrow> isdigit (digit_char d)"
  by (simp add: isdigit_def of_char_digit)

lemma digit_value: "d < 10 \<Longrightarrow> int (of_char (digit_char d)) - 48 = int d"
  by (simp add: of_char_digit)

lemma isdigit_not_space: "isdigit c \<Longrightarrow> \<not> isspace c"
  by (auto simp: isdigit_def isspace_def)

lemma isdigit_not_sign: "isdigit c \<Longrightarrow> c \<noteq> CHR ''-'' \<and> c \<noteq> CHR ''+''"
  by (auto simp: isdigit_def)

lemma decimal_digits: "list_all isdigit (decimal n)"
proof (induction n rule: decimal.induct)
  case (1 n)
  show ?case
  proof (cases "n < 10")
    case True
    then show ?thesis by (subst decimal.simps) (simp add: isdigit_digit)
  next
    case False
    have "n mod 10 < 10" by simp
    then have "isdigit (digit_char (n mod 10))" by (rule isdigit_digit)
    with False "1.IH" show ?thesis by (subst decimal.simps) simp
  qed
qed

lemma decimal_not_empty: "decimal n \<noteq> []"
  by (subst decimal.simps) simp

lemma digits_value_append:
  "list_all isdigit xs \<Longrightarrow> digits_value acc (xs @ ys) = digits_value (digits_value acc xs) ys"
  by (induction xs arbitrary: acc) simp_all

lemma digits_value_decimal: "digits_value 0 (decimal n) = int n"
proof (induction n rule: decimal.induct)
  case (1 n)
  show ?case
  proof (cases "n < 10")
    case True
    then show ?thesis
      by (subst decimal.simps) (simp add: isdigit_digit digit_value)
  next
    case False
    have d: "n mod 10 < 10" by simp
    have "digits_value 0 (decimal n)
            = digits_value (digits_value 0 (decimal (n div 10))) [digit_char (n mod 10)]"
      using False by (subst decimal.simps) (simp add: digits_value_append decimal_digits)
    also have "\<dots> = 10 * int (n div 10) + int (n mod 10)"
      using "1.IH" [OF False] isdigit_digit [OF d] digit_value [OF d]
      by simp
    also have "\<dots> = int n" by presburger
    finally show ?thesis .
  qed
qed

lemma decimal_Cons: "\<exists>c r. decimal n = c # r \<and> isdigit c"
proof -
  obtain c r where cr: "decimal n = c # r"
    using decimal_not_empty [of n] by (cases "decimal n") auto
  moreover have "isdigit c" using decimal_digits [of n] cr by simp
  ultimately show ?thesis by blast
qed

lemma atoi_decimal:
  assumes "int n \<le> INT_MAX"
  shows "atoi (decimal n) = Some (int n)"
proof -
  obtain c r where cr: "decimal n = c # r" and c: "isdigit c"
    using decimal_Cons by blast
  have "dropWhile isspace (decimal n) = decimal n"
    using cr c by (simp add: isdigit_not_space)
  moreover have "digits_value 0 (c # r) = int n"
    using digits_value_decimal [of n] cr by simp
  moreover have "INT_MIN \<le> int n" by (simp add: INT_MIN_def)
  ultimately show ?thesis
    using assms cr isdigit_not_sign [OF c]
    by (simp add: atoi_def Let_def del: digits_value.simps)
qed

lemma atoi_minus_decimal:
  assumes "int n \<le> 2 ^ 31"
  shows "atoi (CHR ''-'' # decimal n) = Some (- int n)"
proof -
  have "\<not> isspace CHR ''-''" by (simp add: isspace_def)
  then have "dropWhile isspace (CHR ''-'' # decimal n) = CHR ''-'' # decimal n" by simp
  moreover have "- int n \<le> INT_MAX" by (simp add: INT_MAX_def)
  moreover have "INT_MIN \<le> - int n" using assms by (simp add: INT_MIN_def)
  ultimately show ?thesis
    by (simp add: atoi_def Let_def digits_value_decimal)
qed

lemma configure_atoi:
  "getenv ''CYCLES'' = Some s \<Longrightarrow> atoi s = Some v \<Longrightarrow>
   configure_max_cycle_opt getenv = Inr (if 0 < v then nat v else ULLONG_MAX)"
proof -
  assume g: "getenv ''CYCLES'' = Some s" and a: "atoi s = Some v"
  then have "v \<le> INT_MAX" by (auto simp: atoi_def Let_def split: if_splits)
  then have "0 < v \<Longrightarrow> nat v mod 2 ^ 64 = nat v"
    by (simp add: INT_MAX_def)
  with g a show ?thesis by (simp add: configure_max_cycle_opt_def)
qed

lemma simulate_within_simulate:
  "simulate_within n sim (m_gpgpu_sim b) = Some (u, g) \<Longrightarrow>
   simulate sim b = Some (Inr (u, b\<lparr>m_gpgpu_sim := g\<rparr>))"
proof (induction n arbitrary: b)
  case 0
  then have na: "\<not> gpu_active sim (m_gpgpu_sim b)" and r: "u = 0" "g = m_gpgpu_sim b"
    by (simp_all split: if_splits)
  have "simulate sim b = Some (Inr (0, b))"
    using na by (subst simulate.simps) (simp add: active_def)
  with r show ?case by simp
next
  case (Suc n)
  show ?case
  proof (cases "gpu_active sim (m_gpgpu_sim b)")
    case False
    with Suc.prems have r: "u = 0" "g = m_gpgpu_sim b" by simp_all
    have "simulate sim b = Some (Inr (0, b))"
      using False by (subst simulate.simps) (simp add: active_def)
    with r show ?thesis by simp
  next
    case True
    with Suc.prems obtain g' where dc: "gpu_deadlock_check sim (gpu_cycle sim (m_gpgpu_sim b)) = Inr g'"
      by (cases "gpu_deadlock_check sim (gpu_cycle sim (m_gpgpu_sim b))") simp_all
    obtain f g'' where fk: "gpu_finished_kernel sim g' = (f, g'')"
      by (cases "gpu_finished_kernel sim g'")
    have cy: "cycle sim b = Inr (b\<lparr>m_gpgpu_sim := g'\<rparr>)"
      using True dc by (simp add: cycle_def active_def)
    have gf: "get_finished_kernel_uid sim (b\<lparr>m_gpgpu_sim := g'\<rparr>) = (f, b\<lparr>m_gpgpu_sim := g''\<rparr>)"
      using fk by (simp add: get_finished_kernel_uid_def)
    show ?thesis
    proof (cases "f = 0")
      case False
      with Suc.prems True dc fk have "u = f" "g = g''" by simp_all
      moreover have "simulate sim b = Some (Inr (f, b\<lparr>m_gpgpu_sim := g''\<rparr>))"
        using True cy gf False by (subst simulate.simps) (simp add: active_def)
      ultimately show ?thesis by simp
    next
      case f0: True
      with Suc.prems True dc fk have "simulate_within n sim g'' = Some (u, g)" by simp
      then have "simulate_within n sim (m_gpgpu_sim (b\<lparr>m_gpgpu_sim := g''\<rparr>)) = Some (u, g)"
        by simp
      from Suc.IH [OF this]
      have "simulate sim (b\<lparr>m_gpgpu_sim := g''\<rparr>) = Some (Inr (u, b\<lparr>m_gpgpu_sim := g\<rparr>))"
        by simp
      moreover have "simulate sim b = simulate sim (b\<lparr>m_gpgpu_sim := g''\<rparr>)"
        using True cy gf f0 by (subst simulate.simps) (simp add: active_def)
      ultimately show ?thesis by simp
    qed
  qed
qed

lemma launch_kernels_from_window:
  "length (kernels_info (launch_kernels_from sim is b)) = length (kernels_info b)"
  by (induction "is" arbitrary: b) (simp_all add: Let_def print_def)

lemma launch_kernels_window:
  "kernels_info (launch_kernels sim b) = [] \<longleftrightarrow> kernels_info b = []"
proof -
  have "length (kernels_info (launch_kernels sim b)) = length (kernels_info b)"
    unfolding launch_kernels_def by (rule launch_kernels_from_window)
  then show ?thesis by (metis length_0_conv)
qed

lemma cleanup_loop_gpu: "m_gpgpu_sim (cleanup_loop sim u j b) = m_gpgpu_sim b"
proof (induction "length (kernels_info b) - j" arbitrary: b j rule: less_induct)
  case less
  show ?case
  proof (cases "j < length (kernels_info b)")
    case False
    then show ?thesis by (subst cleanup_loop.simps) simp
  next
    case True
    let ?k = "kernels_info b ! j"
    let ?b' = "b\<lparr>busy_streams := remove1 (cuda_stream_id ?k) (busy_streams b),
                 kernels_info := take j (kernels_info b) @ drop (Suc j) (kernels_info b)\<rparr>"
    have m1: "length (kernels_info ?b') - (j + 1) < length (kernels_info b) - j"
      using True by simp
    have m2: "length (kernels_info b) - (j + 1) < length (kernels_info b) - j"
      using True by simp
    have "m_gpgpu_sim (cleanup_loop sim u (j + 1) ?b') = m_gpgpu_sim ?b'"
      using m1 by (rule less.hyps)
    moreover have "m_gpgpu_sim (cleanup_loop sim u (j + 1) b) = m_gpgpu_sim b"
      using m2 by (rule less.hyps)
    ultimately show ?thesis
      using True by (subst cleanup_loop.simps) (simp add: Let_def)
  qed
qed

lemma cap_hit_pass:
  assumes entered: "commands_left b \<or> kernels_left b"
    and fill: "process_commands sim b = Inr b1"
    and run: "simulate_within n sim (m_gpgpu_sim (launch_kernels sim b1)) = Some (u, g)"
    and hit: "gpu_cycle_insn_cta_max_hit sim g"
    and hit': "gpu_cycle_insn_cta_max_hit sim (gpu_update_stats sim g)"
  shows "kernels_info b1 \<noteq> [] \<longrightarrow>
           (\<exists>b'. cleanup_finished_kernel sim u ((launch_kernels sim b1)\<lparr>m_gpgpu_sim := g\<rparr>) = Inr b'
                \<and> run_to_completion sim b
                    = Some (Inr (exit_messages (print max_cycles_notice b'))))"
    and "kernels_info b1 = [] \<longrightarrow> run_to_completion sim b = Some (Inl Assertion_failed)"
proof -
  let ?b2 = "(launch_kernels sim b1)\<lparr>m_gpgpu_sim := g\<rparr>"
  have s: "simulate sim (launch_kernels sim b1) = Some (Inr (u, ?b2))"
    using run by (rule simulate_within_simulate)
  have it: "iteration sim b = Some (cleanup_finished_kernel sim u ?b2)"
    by (simp add: iteration_def fill s)
  have w: "kernels_info ?b2 = [] \<longleftrightarrow> kernels_info b1 = []"
    by (simp add: launch_kernels_window)
  show "kernels_info b1 = [] \<longrightarrow> run_to_completion sim b = Some (Inl Assertion_failed)"
  proof
    assume "kernels_info b1 = []"
    with w hit have "cleanup_finished_kernel sim u ?b2 = Inl Assertion_failed"
      by (simp add: cleanup_finished_kernel_def)
    with it have "run_loop sim b = Some (Inl Assertion_failed)"
      using entered by (subst run_loop.simps) simp
    then show "run_to_completion sim b = Some (Inl Assertion_failed)"
      by (simp add: run_to_completion_def)
  qed
  show "kernels_info b1 \<noteq> [] \<longrightarrow>
           (\<exists>b'. cleanup_finished_kernel sim u ?b2 = Inr b'
                \<and> run_to_completion sim b
                    = Some (Inr (exit_messages (print max_cycles_notice b'))))"
  proof
    assume "kernels_info b1 \<noteq> []"
    with w have ne: "kernels_info ?b2 \<noteq> []" by simp
    let ?b3 = "cleanup_loop sim u 0 ?b2"
    have g3: "m_gpgpu_sim ?b3 = g" by (simp add: cleanup_loop_gpu)
    define b' where "b' = (if \<not> silent ?b3 \<and> gpu_sim_cycle sim g > 0
                           then ?b3\<lparr>m_gpgpu_sim := gpu_update_stats sim g\<rparr> else ?b3)"
    have c: "cleanup_finished_kernel sim u ?b2 = Inr b'"
      using ne hit g3 by (simp add: cleanup_finished_kernel_def b'_def)
    have "gpu_cycle_insn_cta_max_hit sim (m_gpgpu_sim b')"
      using hit hit' g3 by (simp add: b'_def)
    with it c have "run_loop sim b = Some (Inr (print max_cycles_notice b'))"
      using entered by (subst run_loop.simps) simp
    then have "run_to_completion sim b = Some (Inr (exit_messages (print max_cycles_notice b')))"
      by (simp add: run_to_completion_def)
    with c show "\<exists>b'. cleanup_finished_kernel sim u ?b2 = Inr b'
                \<and> run_to_completion sim b
                    = Some (Inr (exit_messages (print max_cycles_notice b')))"
      by blast
  qed
qed

text \<open>
  C6, as stated, fails twice.  \<^verbatim>\<open>atoi\<close> converts to \<^verbatim>\<open>int\<close>: with CYCLES set to the
  positive integer \<open>2 ^ 31\<close> the value is outside the range of \<^verbatim>\<open>int\<close>, the conversion is
  undefined, and the cap is not set to that number.  And reaching the cap can end in an
  error: on \<open>memcpy_bridge\<close> the simulation loop ends with the cap hit and an empty window,
  and \<^verbatim>\<open>cleanup_finished_kernel\<close> stops at \<^verbatim>\<open>assert(k)\<close> before the cap is tested.
\<close>

theorem C6_counterexample:
  "configure_max_cycle_opt (env_cycles (decimal 2147483648)) \<noteq> Inr 2147483648
   \<and> configure_max_cycle_opt (env_cycles ''2147483648'') = Inl Undefined_behaviour
   \<and> process_commands toy_sim memcpy_bridge
       = Inr (memcpy_bridge_capped\<lparr>m_gpgpu_sim := (0, [(20, 64)])\<rparr>)
   \<and> simulate toy_sim
         (launch_kernels toy_sim (memcpy_bridge_capped\<lparr>m_gpgpu_sim := (0, [(20, 64)])\<rparr>))
       = Some (Inr (0, memcpy_bridge_capped))
   \<and> limit_reached toy_sim memcpy_bridge_capped
   \<and> run_to_completion toy_sim memcpy_bridge = Some (Inl Assertion_failed)"
proof -
  have d: "decimal 2147483648 = ''2147483648''"
    by (simp add: decimal.simps digit_char_def)
  have "atoi ''2147483648'' = None"
    by (simp add: atoi_def isspace_def isdigit_def INT_MAX_def INT_MIN_def)
  then have "configure_max_cycle_opt (env_cycles ''2147483648'') = Inl Undefined_behaviour"
    by (simp add: configure_max_cycle_opt_def env_cycles_def)
  with d have 1: "configure_max_cycle_opt (env_cycles (decimal 2147483648)) \<noteq> Inr 2147483648
   \<and> configure_max_cycle_opt (env_cycles ''2147483648'') = Inl Undefined_behaviour"
    by simp
  have 2: "process_commands toy_sim memcpy_bridge
       = Inr (memcpy_bridge_capped\<lparr>m_gpgpu_sim := (0, [(20, 64)])\<rparr>)"
    by code_simp
  have 3: "simulate toy_sim
         (launch_kernels toy_sim (memcpy_bridge_capped\<lparr>m_gpgpu_sim := (0, [(20, 64)])\<rparr>))
       = Some (Inr (0, memcpy_bridge_capped))"
    by code_simp
  have 4: "limit_reached toy_sim memcpy_bridge_capped" by code_simp
  have 5: "run_to_completion toy_sim memcpy_bridge = Some (Inl Assertion_failed)"
    by code_simp
  from 1 2 3 4 5 show ?thesis by (intro conjI) simp_all
qed

text \<open>
  C6 (amended): with CYCLES set to the decimal notation of a positive integer \<open>n\<close> no larger
  than \<^verbatim>\<open>INT_MAX\<close> the cap is \<open>n\<close>; with CYCLES unset, set to 0 or set to a negative
  integer (down to \<^verbatim>\<open>INT_MIN\<close>) the cap is \<^verbatim>\<open>(unsigned long long)-1\<close>; in general the cap
  follows the value \<^verbatim>\<open>atoi\<close> reads from the variable.  Take a pass through the outer loop
  in which \<^verbatim>\<open>process_commands\<close> returns (\<open>b1\<close>) and the simulation loop breaks within
  finitely many cycles, without a deadlock abort, in a simulator state where the cap is
  hit, before and after the update of the statistics.  If the kernel window is not empty,
  \<^verbatim>\<open>run_to_completion\<close> retires kernels, prints the notice, leaves the loop whatever
  commands or kernels are left, prints its exit messages and returns normally.  If the
  window is empty, the pass ends in the assertion failure of \<^verbatim>\<open>cleanup_finished_kernel\<close>.
\<close>

theorem C6_cycle_cap:
  "(0 < n \<and> int n \<le> INT_MAX \<and> getenv ''CYCLES'' = Some (decimal n)
      \<longrightarrow> configure_max_cycle_opt getenv = Inr n)
   \<and> (getenv ''CYCLES'' = None \<longrightarrow> configure_max_cycle_opt getenv = Inr ULLONG_MAX)
   \<and> (getenv ''CYCLES'' = Some ''0'' \<longrightarrow> configure_max_cycle_opt getenv = Inr ULLONG_MAX)
   \<and> (int m \<le> 2 ^ 31 \<and> getenv ''CYCLES'' = Some (CHR ''-'' # decimal m)
      \<longrightarrow> configure_max_cycle_opt getenv = Inr ULLONG_MAX)
   \<and> (getenv ''CYCLES'' = Some s \<and> atoi s = Some v
      \<longrightarrow> configure_max_cycle_opt getenv = Inr (if 0 < v then nat v else ULLONG_MAX))
   \<and> ((commands_left b \<or> kernels_left b) \<and> process_commands sim b = Inr b1
       \<and> simulate_within fuel sim (m_gpgpu_sim (launch_kernels sim b1)) = Some (u, g)
       \<and> gpu_cycle_insn_cta_max_hit sim g
       \<and> gpu_cycle_insn_cta_max_hit sim (gpu_update_stats sim g)
      \<longrightarrow> (kernels_info b1 \<noteq> [] \<longrightarrow>
             (\<exists>b'. cleanup_finished_kernel sim u ((launch_kernels sim b1)\<lparr>m_gpgpu_sim := g\<rparr>)
                     = Inr b'
                  \<and> run_to_completion sim b
                      = Some (Inr (exit_messages (print max_cycles_notice b')))))
          \<and> (kernels_info b1 = [] \<longrightarrow>
                run_to_completion sim b = Some (Inl Assertion_failed)))"
proof (intro conjI)
  show "0 < n \<and> int n \<le> INT_MAX \<and> getenv ''CYCLES'' = Some (decimal n)
      \<longrightarrow> configure_max_cycle_opt getenv = Inr n"
    using configure_atoi [of getenv "decimal n" "int n"] by (simp add: atoi_decimal)
  show "getenv ''CYCLES'' = None \<longrightarrow> configure_max_cycle_opt getenv = Inr ULLONG_MAX"
    by (simp add: configure_max_cycle_opt_def)
  show "getenv ''CYCLES'' = Some ''0'' \<longrightarrow> configure_max_cycle_opt getenv = Inr ULLONG_MAX"
  proof
    assume g: "getenv ''CYCLES'' = Some ''0''"
    have "decimal 0 = ''0''" by (simp add: decimal.simps digit_char_def)
    then have "atoi ''0'' = Some 0"
      using atoi_decimal [of 0] by (simp add: INT_MAX_def)
    with g show "configure_max_cycle_opt getenv = Inr ULLONG_MAX"
      using configure_atoi [of getenv "''0''" 0] by simp
  qed
  show "int m \<le> 2 ^ 31 \<and> getenv ''CYCLES'' = Some (CHR ''-'' # decimal m)
      \<longrightarrow> configure_max_cycle_opt getenv = Inr ULLONG_MAX"
    using configure_atoi [of getenv "CHR ''-'' # decimal m" "- int m"]
    by (simp add: atoi_minus_decimal)
  show "getenv ''CYCLES'' = Some s \<and> atoi s = Some v
      \<longrightarrow> configure_max_cycle_opt getenv = Inr (if 0 < v then nat v else ULLONG_MAX)"
    by (simp add: configure_atoi)
  show "(commands_left b \<or> kernels_left b) \<and> process_commands sim b = Inr b1
       \<and> simulate_within fuel sim (m_gpgpu_sim (launch_kernels sim b1)) = Some (u, g)
       \<and> gpu_cycle_insn_cta_max_hit sim g
       \<and> gpu_cycle_insn_cta_max_hit sim (gpu_update_stats sim g)
      \<longrightarrow> (kernels_info b1 \<noteq> [] \<longrightarrow>
             (\<exists>b'. cleanup_finished_kernel sim u ((launch_kernels sim b1)\<lparr>m_gpgpu_sim := g\<rparr>)
                     = Inr b'
                  \<and> run_to_completion sim b
                      = Some (Inr (exit_messages (print max_cycles_notice b')))))
          \<and> (kernels_info b1 = [] \<longrightarrow>
                run_to_completion sim b = Some (Inl Assertion_failed))"
  proof
    assume a: "(commands_left b \<or> kernels_left b) \<and> process_commands sim b = Inr b1
       \<and> simulate_within fuel sim (m_gpgpu_sim (launch_kernels sim b1)) = Some (u, g)
       \<and> gpu_cycle_insn_cta_max_hit sim g
       \<and> gpu_cycle_insn_cta_max_hit sim (gpu_update_stats sim g)"
    then have entered: "commands_left b \<or> kernels_left b"
      and fill: "process_commands sim b = Inr b1"
      and run: "simulate_within fuel sim (m_gpgpu_sim (launch_kernels sim b1)) = Some (u, g)"
      and hit: "gpu_cycle_insn_cta_max_hit sim g"
      and hit': "gpu_cycle_insn_cta_max_hit sim (gpu_update_stats sim g)"
      by simp_all
    from cap_hit_pass [OF entered fill run hit hit']
    show "(kernels_info b1 \<noteq> [] \<longrightarrow>
             (\<exists>b'. cleanup_finished_kernel sim u ((launch_kernels sim b1)\<lparr>m_gpgpu_sim := g\<rparr>)
                     = Inr b'
                  \<and> run_to_completion sim b
                      = Some (Inr (exit_messages (print max_cycles_notice b')))))
          \<and> (kernels_info b1 = [] \<longrightarrow>
                run_to_completion sim b = Some (Inl Assertion_failed))"
      by (rule conjI)
  qed
qed

theorem C6_witness:
  "configure_max_cycle_opt (env_cycles ''5000'') = Inr 5000
   \<and> configure_max_cycle_opt (env_cycles ''-3'') = Inr ULLONG_MAX
   \<and> commands_left toy_bridge_capped
   \<and> run_to_completion toy_sim toy_bridge
       = Some (Inr (exit_messages (print max_cycles_notice toy_bridge_capped)))
   \<and> run_to_completion toy_sim memcpy_bridge = Some (Inl Assertion_failed)"
proof -
  have d: "decimal 5000 = ''5000''" "decimal 3 = ''3''"
    by (simp_all add: decimal.simps digit_char_def)
  have 1: "configure_max_cycle_opt (env_cycles ''5000'') = Inr 5000"
    using C6_cycle_cap [of 5000 "env_cycles ''5000''", THEN conjunct1] d
    by (simp add: env_cycles_def INT_MAX_def)
  have 2: "configure_max_cycle_opt (env_cycles ''-3'') = Inr ULLONG_MAX"
    using C6_cycle_cap [of _ "env_cycles ''-3''" 3, THEN conjunct2, THEN conjunct2,
        THEN conjunct2, THEN conjunct1] d
    by (simp add: env_cycles_def)
  let ?g = "(3, [(20, 64)]) :: nat \<times> (nat \<times> nat) list"
  have left: "commands_left toy_bridge \<or> kernels_left toy_bridge" by code_simp
  have fill: "process_commands toy_sim toy_bridge = Inr toy_bridge_filled" by code_simp
  have run: "simulate_within 3 toy_sim (m_gpgpu_sim (launch_kernels toy_sim toy_bridge_filled))
      = Some (0, ?g)"
    by code_simp
  have hit: "gpu_cycle_insn_cta_max_hit toy_sim ?g"
    "gpu_cycle_insn_cta_max_hit toy_sim (gpu_update_stats toy_sim ?g)"
    by code_simp+
  have ne: "kernels_info toy_bridge_filled \<noteq> []" by code_simp
  have cl: "cleanup_finished_kernel toy_sim 0
        ((launch_kernels toy_sim toy_bridge_filled)\<lparr>m_gpgpu_sim := ?g\<rparr>)
      = Inr toy_bridge_capped"
    by code_simp
  have 3: "commands_left toy_bridge_capped" by code_simp
  from C6_cycle_cap [of _ _ _ _ _ toy_bridge toy_sim toy_bridge_filled 3 0 ?g,
        THEN conjunct2, THEN conjunct2, THEN conjunct2, THEN conjunct2, THEN conjunct2]
    left fill run hit ne
  obtain b' where "cleanup_finished_kernel toy_sim 0
        ((launch_kernels toy_sim toy_bridge_filled)\<lparr>m_gpgpu_sim := ?g\<rparr>) = Inr b'"
    and r: "run_to_completion toy_sim toy_bridge
       = Some (Inr (exit_messages (print max_cycles_notice b')))"
    by blast
  with cl have "b' = toy_bridge_capped" by simp
  with r have 4: "run_to_completion toy_sim toy_bridge
       = Some (Inr (exit_messages (print max_cycles_notice toy_bridge_capped)))"
    by simp
  have left': "commands_left memcpy_bridge \<or> kernels_left memcpy_bridge" by code_simp
  have fill': "process_commands toy_sim memcpy_bridge
      = Inr (memcpy_bridge_capped\<lparr>m_gpgpu_sim := (0, [(20, 64)])\<rparr>)"
    by code_simp
  have run': "simulate_within 3 toy_sim
        (m_gpgpu_sim (launch_kernels toy_sim
           (memcpy_bridge_capped\<lparr>m_gpgpu_sim := (0, [(20, 64)])\<rparr>)))
      = Some (0, ?g)"
    by code_simp
  have e: "kernels_info (memcpy_bridge_capped\<lparr>m_gpgpu_sim := (0, [(20, 64)])\<rparr>) = []"
    by code_simp
  have 5: "run_to_completion toy_sim memcpy_bridge = Some (Inl Assertion_failed)"
    using C6_cycle_cap [of _ _ _ _ _ memcpy_bridge toy_sim
        "memcpy_bridge_capped\<lparr>m_gpgpu_sim := (0, [(20, 64)])\<rparr>" 3 0 ?g,
        THEN conjunct2, THEN conjunct2, THEN conjunct2, THEN conjunct2, THEN conjunct2]
      left' fill' run' hit e
    by blast
  from 1 2 3 4 5 show ?thesis by blast
qed

section \<open>Properties of the anynet topology\<close>

subsection \<open>Latency of an undeclared return channel\<close>

text \<open>
  A line that declares one channel between routers installs it with its latency, and the
  channel back with latency 1.
\<close>

lemma declared_link_parsed:
  "readFile [''router 0 router 1 3''] =
     Inr \<lparr>router_list_NODE = [(0, []), (1, [])],
          router_list_ROUTER = [(0, [(1, (- 1, 3))]), (1, [(0, (- 1, 1))])],
          node_list = [],
          routing_table = []\<rparr>"
  by code_simp

text \<open>
  On the example of the file's own comment, which gives nodes 1 and 2 a latency of 5, the
  weights do not reach the node links: they make links of latency 5 from router 0 to
  routers 1 and 2, which the network does not have.
\<close>

lemma documented_example_parsed:
  "readFile documented_example_file =
     Inr \<lparr>router_list_NODE = [(0, [(0, (- 1, 1)), (1, (- 1, 1)), (2, (- 1, 1))])],
          router_list_ROUTER = [(0, [(1, (0, 5)), (2, (0, 5))])],
          node_list = [(0, 0), (1, 0), (2, 0)],
          routing_table = []\<rparr>"
  by code_simp

text \<open>
  Claim C10: a line "router A ... router B w" installs the edge from A to B with latency
  \<open>w\<close> and, when the reverse direction is not declared, the edge from B to A with the
  default latency 1, so that an undeclared return channel always has latency 1.

  The parser stores a weight with \<^verbatim>\<open>router_list[head_type][head_id][body_id].second\<close>, the
  table being chosen by the type of the head of the line and not by the type of the body.
  On \<open>return_latency_file\<close> the weight 5 of the node link of router 1 is therefore written to
  the router-to-router entry from 1 to 0: the return channel, which no line declares, ends
  with latency 5, and the link to node 0 keeps latency 1.
\<close>

theorem C10_return_latency_overwritten:
  "readFile return_latency_file =
     Inr \<lparr>router_list_NODE = [(0, []), (1, [(0, (- 1, 1))])],
          router_list_ROUTER = [(0, [(1, (- 1, 3))]), (1, [(0, (- 1, 5))])],
          node_list = [(0, 1)],
          routing_table = []\<rparr>"
  by code_simp

subsection \<open>The routing table\<close>

subsubsection \<open>Maps and arrays\<close>

paragraph \<open>Ordered maps\<close>




lemma length_put [simp]: "length (put xs i x) = length xs"
  by (simp add: put_def)

lemma in_bounds_put [simp]: "in_bounds j (put xs i x) = in_bounds j xs"
  by (simp add: in_bounds_def)


paragraph \<open>find_min\<close>


paragraph \<open>relax\<close>


subsubsection \<open>Invariant of the search: what it gives\<close>

lemma graph_ok_link:
  "graph_ok t n W \<Longrightarrow> e \<in> set (links_of t u) \<Longrightarrow>
   0 \<le> fst e \<and> fst e < int n \<and> 1 \<le> snd (snd e) \<and> snd (snd e) \<le> W
   \<and> map_count u (links_of t (fst e)) > 0"
  unfolding graph_ok_def by blast




lemma inv_startD:
  "dijkstra_inv t n W r rlist (dist, prev) \<Longrightarrow> at dist r = 0 \<and> at prev r = - 1"
  by (simp add: dijkstra_inv_def inv_start_def)





lemma inv_relaxedD:
  "dijkstra_inv t n W r rlist (dist, prev) \<Longrightarrow> 0 \<le> u \<Longrightarrow> u < int n \<Longrightarrow>
   u \<notin> set rlist \<Longrightarrow> e \<in> set (links_of t u) \<Longrightarrow>
   at dist (fst e) \<le> at dist u + snd (snd e)"
  unfolding dijkstra_inv_def inv_relaxed_def fst_conv by blast




subsubsection \<open>One round of the loop\<close>


subsubsection \<open>The loop of the search\<close>






subsubsection \<open>Walks and the way back\<close>

lemma map_count_pos: "0 < map_count k m \<longleftrightarrow> (\<exists>v. map_of m k = Some v)"
  by (simp add: map_count_def split: option.splits)

lemma map_count_zero: "map_count k m = 0 \<longleftrightarrow> map_of m k = None"
  by (simp add: map_count_def split: option.splits)


lemma map_count_mem: "0 < map_count k m \<Longrightarrow> (k, map_at dflt m k) \<in> set m"
  by (auto simp: map_count_def map_at_def split: option.splits dest: map_of_SomeD)


lemma link_present:
  assumes "map_count v (links_of t u) \<noteq> 0"
  shows "(v, map_at (0, 0) (links_of t u) v) \<in> set (links_of t u)"
  using assms by (intro map_count_mem) simp

lemma walk_lower_bound:
  assumes g: "graph_ok t n W" and inv: "dijkstra_inv t n W r [] (dist, prev)"
  shows "walk_lat t (u # p) = Some k \<Longrightarrow> 0 \<le> u \<Longrightarrow> u < int n \<Longrightarrow>
         at dist (last (u # p)) \<le> at dist u + k"
proof (induction p arbitrary: u k)
  case Nil
  then show ?case by simp
next
  case (Cons v p)
  from Cons.prems(1) have c: "map_count v (links_of t u) \<noteq> 0"
    by (simp split: if_splits)
  with Cons.prems(1) obtain k' where k': "walk_lat t (v # p) = Some k'"
    and k: "k = snd (map_at (0, 0) (links_of t u) v) + k'"
    by (auto split: option.splits)
  let ?e = "(v, map_at (0, 0) (links_of t u) v)"
  have e: "?e \<in> set (links_of t u)" using c by (rule link_present)
  from graph_ok_link [OF g e] have v: "0 \<le> v" "v < int n" by simp_all
  have "at dist v \<le> at dist u + snd (map_at (0, 0) (links_of t u) v)"
    using inv_relaxedD [OF inv Cons.prems(2,3) _ e] by simp
  moreover have "at dist (last (v # p)) \<le> at dist v + k'"
    using Cons.IH [OF k' v] .
  ultimately show ?case using k by simp
qed




lemma self_least:
  assumes g: "graph_ok t n W" and inv: "dijkstra_inv t n W r [] (dist, prev)"
    and r: "0 \<le> r" "r < int n"
  shows "at dist r = 0 \<and> least_latency t r r 0"
proof -
  have dr: "at dist r = 0" using inv_startD [OF inv] by simp
  have "least_latency t r r 0"
    unfolding least_latency_def
  proof (intro allI impI)
    fix q k' assume "walk_lat t (r # q) = Some k' \<and> last (r # q) = r"
    with walk_lower_bound [OF g inv _ r, of q k'] dr show "0 \<le> k'" by simp
  qed
  with dr show ?thesis by simp
qed

subsubsection \<open>The table of one router\<close>










subsubsection \<open>The table of all routers\<close>

lemma topo_ok_table [simp]: "topo_ok (net\<lparr>routing_table := tbl\<rparr>) W = topo_ok net W"
  by (simp add: topo_ok_def nodes_ok_def size_of_def)

lemma table_ok_table [simp]:
  "table_ok (net\<lparr>routing_table := tbl\<rparr>) r table = table_ok net r table"
  by (simp add: table_ok_def route_entry_def dijkstra_def size_of_def routers_def)

lemma size_of_table [simp]: "size_of (net\<lparr>routing_table := tbl\<rparr>) = size_of net"
  by (simp add: size_of_def)




subsubsection \<open>Numbering the ports\<close>










lemma number_ports_Nil: "fst (number_ports p []) = []"
  by simp







subsubsection \<open>Connected networks: what they give\<close>















subsubsection \<open>Following the table\<close>










subsubsection \<open>Routing on the example networks\<close>

lemma ports_ok_table [simp]: "ports_ok (net\<lparr>routing_table := tbl\<rparr>) = ports_ok net"
  by (simp add: ports_ok_def)

lemma dijkstra_distance_table [simp]:
  "dijkstra_distance (net\<lparr>routing_table := tbl\<rparr>) r x k = dijkstra_distance net r x k"
  by (simp add: dijkstra_distance_def dijkstra_def size_of_def routers_def)



lemma line_net_well_formed: "well_formed line_net"
  by code_simp





lemma line_net_built:
  "BuildNet line_net =
     Some (Inr \<lparr>router_list_NODE = [(0, [(0, (0, 1))]), (1, [(1, (0, 1))]), (2, [(2, (0, 1))])],
               router_list_ROUTER = [(0, [(1, (1, 5))]), (1, [(0, (1, 1)), (2, (2, 3))]),
                                     (2, [(1, (1, 1))])],
               node_list = [(0, 0), (1, 1), (2, 2)],
               routing_table = [[(0, 0), (1, 1), (2, 1)], [(0, 1), (1, 0), (2, 2)],
                                [(0, 1), (1, 1), (2, 0)]]\<rparr>)"
  by code_simp

end
